theory Spec2Isabelle
  imports Main
begin

section \<open>Build-time configuration and constants\<close>

text \<open>
  The values that \<^verbatim>\<open>MYNEWT_VAL(...)\<close> reads come from the build's syscfg and are not
  part of \<^verbatim>\<open>shell.c\<close>; they are a parameter of every function that uses them.
\<close>

record syscfg =
  SHELL_MAX_MODULES :: nat
  SHELL_CMD_ARGC_MAX :: nat
  SHELL_TASK :: bool

definition SHELL_PROMPT :: string where
  "SHELL_PROMPT = ''shell> ''"

definition MODULE_NAME_MAX_LEN :: nat where
  "MODULE_NAME_MAX_LEN = 20"

definition PROMPT_SUFFIX :: nat where
  "PROMPT_SUFFIX = 3"

definition PROMPT_MAX_LEN :: nat where
  "PROMPT_MAX_LEN = MODULE_NAME_MAX_LEN + PROMPT_SUFFIX"

section \<open>C strings in a byte buffer\<close>

text \<open>
  A \<^verbatim>\<open>char\<close> buffer is the list of its bytes. A \<^verbatim>\<open>char *\<close> into the line buffer is an
  offset; \<open>None\<close> is the null pointer. The line buffer holds a terminated string, so
  the byte one past the listed ones reads as the terminator.
\<close>

definition NUL :: char where
  "NUL = CHR 0x00"

definition char_at :: "char list \<Rightarrow> nat \<Rightarrow> char" where
  "char_at buf p = (if p < length buf then buf ! p else NUL)"

definition cstr :: "char list \<Rightarrow> nat \<Rightarrow> string" where
  "cstr buf p = takeWhile (\<lambda>c. c \<noteq> NUL) (drop p buf)"

definition strlen :: "char list \<Rightarrow> nat \<Rightarrow> nat" where
  "strlen buf p = length (cstr buf p)"

text \<open>\<^verbatim>\<open>while (*str && *str == ' ') str++;\<close>\<close>

function skip_spaces :: "char list \<Rightarrow> nat \<Rightarrow> nat" where
  "skip_spaces buf p =
     (if char_at buf p \<noteq> NUL \<and> char_at buf p = CHR '' '' then skip_spaces buf (Suc p) else p)"
  by pat_completeness auto
termination
  by (relation "measure (\<lambda>(buf, p). length buf - p)")
     (auto simp: char_at_def split: if_splits)

declare skip_spaces.simps [simp del]

text \<open>\<^verbatim>\<open>strchr(str, c)\<close>: the first occurrence of \<open>c\<close> before the terminator, or null.\<close>

function strchr :: "char list \<Rightarrow> nat \<Rightarrow> char \<Rightarrow> nat option" where
  "strchr buf p c =
     (if char_at buf p = c then Some p
      else if char_at buf p = NUL then None
      else strchr buf (Suc p) c)"
  by pat_completeness auto
termination
  by (relation "measure (\<lambda>(buf, p, c). length buf - p)")
     (auto simp: char_at_def split: if_splits)

declare strchr.simps [simp del]

text \<open>\<^verbatim>\<open>strncmp(a, b, n) == 0\<close> on terminated strings.\<close>

definition strncmp_eq :: "string \<Rightarrow> string \<Rightarrow> nat \<Rightarrow> bool" where
  "strncmp_eq a b n = (take n a = take n b)"

section \<open>Console output and callbacks\<close>

text \<open>
  The console is an external sink: each call of \<^verbatim>\<open>console_printf\<close> is recorded with its
  format string and arguments. A call of an application function through a
  \<^verbatim>\<open>shell_cmd_func_t\<close> pointer is recorded with the \<open>argc\<close> and the entries
  \<open>argv[0..argc]\<close> it is given.
\<close>

datatype printf_arg = Arg_str "string option" | Arg_int int | Arg_size nat

datatype event =
    Printf string "printf_arg list"
  | Call nat nat "string option list"

text \<open>
  A function pointer of type \<^verbatim>\<open>shell_cmd_func_t\<close>: one of the two static handlers of
  \<^verbatim>\<open>shell.c\<close>, or an application function, named by a number. The static handlers are
  not visible outside the file, so a command table holds application functions only.
\<close>

datatype cmd_func = Show_help | Select_module | App nat

record shell_cmd_help =
  summary :: "string option"
  usage :: "string option"

record shell_cmd =
  sc_cmd :: "string option"
  sc_cmd_func :: "nat option"
  "help" :: "shell_cmd_help option"

text \<open>
  A command table is read up to its first entry with a null \<open>sc_cmd\<close>; the end of the
  list stands for that entry too.
\<close>

record shell_module =
  "module_name" :: string
  commands :: "shell_cmd list"

text \<open>
  Where the C program would leave defined behaviour the model stops with a fault: a write
  past the end of the prompt array, or a read through a null entry of \<open>argv\<close>.
\<close>

datatype fault = Buffer_overrun | Null_dereference

section \<open>The static state of \<^verbatim>\<open>shell.c\<close>\<close>

record shell_state =
  shell_modules :: "nat \<Rightarrow> shell_module"
  num_of_shell_entities :: nat
  prompt :: "string option"
  default_module_prompt :: "char list"
  default_module :: int
  app_cmd_handler :: "nat option"
  app_prompt_handler :: "(unit \<Rightarrow> string option) option"
  console :: "event list"

text \<open>
  The statics as the C runtime zero-initialises them (\<open>default_module\<close> is \<open>-1\<close>). The
  entries of \<open>shell_modules\<close> from \<open>num_of_shell_entities\<close> on are never read; the empty
  name and table stand for their null pointers.
\<close>

definition shell_statics :: shell_state where
  "shell_statics =
     \<lparr>shell_modules = (\<lambda>_. \<lparr>module_name = [], commands = []\<rparr>),
      num_of_shell_entities = 0,
      prompt = None,
      default_module_prompt = replicate PROMPT_MAX_LEN NUL,
      default_module = - 1,
      app_cmd_handler = None,
      app_prompt_handler = None,
      console = []\<rparr>"

definition console_printf :: "string \<Rightarrow> printf_arg list \<Rightarrow> shell_state \<Rightarrow> shell_state" where
  "console_printf fmt args s = s\<lparr>console := console s @ [Printf fmt args]\<rparr>"

section \<open>\<^verbatim>\<open>get_prompt\<close>\<close>

definition get_prompt :: "shell_state \<Rightarrow> string option" where
  "get_prompt s =
     (let rest = (if default_module s \<noteq> - 1 then Some (cstr (default_module_prompt s) 0)
                  else prompt s)
      in case app_prompt_handler s of
           None \<Rightarrow> rest
         | Some handler \<Rightarrow> (case handler () of Some str \<Rightarrow> Some str | None \<Rightarrow> rest))"

section \<open>\<^verbatim>\<open>shell_register\<close>\<close>

definition shell_register ::
  "syscfg \<Rightarrow> string \<Rightarrow> shell_cmd list \<Rightarrow> shell_state \<Rightarrow> int \<times> shell_state" where
  "shell_register cfg name cmds s =
     (if num_of_shell_entities s \<ge> SHELL_MAX_MODULES cfg then (- 1, s)
      else (0, s\<lparr>shell_modules :=
                   (shell_modules s)(num_of_shell_entities s :=
                      \<lparr>module_name = name, commands = cmds\<rparr>),
                 num_of_shell_entities := Suc (num_of_shell_entities s)\<rparr>))"

section \<open>\<^verbatim>\<open>line2argv\<close>\<close>

text \<open>
  The loop \<^verbatim>\<open>while ((str = strchr(str, ' ')))\<close>. Its state is the line buffer, the
  position \<open>str\<close>, the caller's array \<open>argv\<close> and \<open>argc\<close>; it returns the count, the
  buffer and the array as it leaves them, and what it printed.
\<close>

lemma strchr_bounds:
  "strchr buf p c = Some q \<Longrightarrow> c \<noteq> NUL \<Longrightarrow> p \<le> q \<and> q < length buf"
proof (induction buf p c rule: strchr.induct)
  case (1 buf p c)
  show ?case
  proof (cases "char_at buf p = c")
    case True
    with "1.prems" show ?thesis
      by (auto simp: strchr.simps [of buf p] char_at_def split: if_splits)
  next
    case False
    with "1.prems" have "char_at buf p \<noteq> NUL" and "strchr buf (Suc p) c = Some q"
      by (auto simp: strchr.simps [of buf p] split: if_splits)
    with "1.IH" False "1.prems" show ?thesis
      by fastforce
  qed
qed

lemma skip_spaces_ge: "p \<le> skip_spaces buf p"
proof (induction buf p rule: skip_spaces.induct)
  case (1 buf p)
  then show ?case
    by (cases "char_at buf p \<noteq> NUL \<and> char_at buf p = CHR '' ''")
       (auto simp: skip_spaces.simps [of buf p])
qed

function line2argv_loop ::
  "nat \<Rightarrow> char list \<Rightarrow> nat \<Rightarrow> nat option list \<Rightarrow> nat
     \<Rightarrow> nat \<times> char list \<times> nat option list \<times> event list" where
  "line2argv_loop size' buf str argv argc =
     (case strchr buf str (CHR '' '') of
        None \<Rightarrow> (argc, buf, argv[argc := None], [])
      | Some sp \<Rightarrow>
          (let buf1 = buf[sp := NUL];
               str1 = skip_spaces buf1 (Suc sp)
           in if char_at buf1 str1 = NUL then (argc, buf1, argv[argc := None], [])
              else if Suc argc = size'
                then (0, buf1, argv[argc := Some str1],
                      [Printf ''Too many parameters (max %zu)\<newline>'' [Arg_size (size' - 1)]])
                else line2argv_loop size' buf1 str1 (argv[argc := Some str1]) (Suc argc)))"
  by pat_completeness auto
termination
proof (relation "measure (\<lambda>(size', buf, str, argv, argc). length buf - str)", goal_cases)
  case 1
  show ?case by simp
next
  case (2 size' buf str argv argc sp buf1 str1)
  from 2(1) have "str \<le> sp \<and> sp < length buf"
    by (rule strchr_bounds) (simp add: NUL_def)
  moreover from 2(2,3) have "Suc sp \<le> str1"
    by (simp add: skip_spaces_ge)
  ultimately have "length buf - str1 < length buf - str"
    by arith
  with 2(2) show ?case
    by simp
qed

declare line2argv_loop.simps [simp del]

definition line2argv ::
  "char list \<Rightarrow> nat option list \<Rightarrow> nat \<Rightarrow> nat \<times> char list \<times> nat option list \<times> event list" where
  "line2argv line argv size' =
     (if strlen line 0 = 0 then (0, line, argv, [])
      else let str = skip_spaces line 0
           in if char_at line str = NUL then (0, line, argv, [])
              else line2argv_loop size' line str (argv[0 := Some str]) 1)"

section \<open>Module lookup\<close>

text \<open>\<^verbatim>\<open>for (i = 0; i < num_of_shell_entities; i++)\<close> of \<^verbatim>\<open>get_destination_module\<close>.\<close>

function get_destination_module_loop :: "shell_state \<Rightarrow> string \<Rightarrow> nat \<Rightarrow> nat \<Rightarrow> int" where
  "get_destination_module_loop s module_str len i =
     (if i < num_of_shell_entities s
      then (if strncmp_eq module_str (module_name (shell_modules s i)) len then int i
            else get_destination_module_loop s module_str len (Suc i))
      else - 1)"
  by pat_completeness auto
termination
  by (relation "measure (\<lambda>(s, module_str, len, i). num_of_shell_entities s - i)") auto

declare get_destination_module_loop.simps [simp del]

definition get_destination_module :: "shell_state \<Rightarrow> string \<Rightarrow> nat \<Rightarrow> int" where
  "get_destination_module s module_str len = get_destination_module_loop s module_str len 0"

text \<open>
  Reading \<open>argv[i]\<close> in an array of strings. Every read of the program is at an index of
  at most \<open>argc\<close>, inside the array; past its end the model reads null.
\<close>

definition arg_at :: "string option list \<Rightarrow> nat \<Rightarrow> string option" where
  "arg_at argv i = (if i < length argv then argv ! i else None)"

text \<open>
  \<^verbatim>\<open>get_command_and_module(argv, &module)\<close> returns the command name (or null), the value
  left in \<open>*module\<close>, and the state with what was printed.
\<close>

definition get_command_and_module ::
  "string option list \<Rightarrow> shell_state \<Rightarrow> string option \<times> int \<times> shell_state" where
  "get_command_and_module argv s =
     (case arg_at argv 0 of
        None \<Rightarrow> (None, - 1, console_printf ''Unrecognized command\<newline>'' [] s)
      | Some a0 \<Rightarrow>
          if default_module s = - 1 then
            (case arg_at argv 1 of
               None \<Rightarrow>
                 (None, - 1, console_printf ''Unrecognized command: %s\<newline>'' [Arg_str (Some a0)] s)
             | Some a1 \<Rightarrow>
                 if a1 = [] then
                   (None, - 1, console_printf ''Unrecognized command: %s\<newline>'' [Arg_str (Some a0)] s)
                 else
                   (let module = get_destination_module s a0 MODULE_NAME_MAX_LEN
                    in if module = - 1
                       then (None, - 1, console_printf ''Illegal module %s\<newline>'' [Arg_str (Some a0)] s)
                       else (Some a1, module, s)))
          else (Some a0, default_module s, s))"

section \<open>Help\<close>

text \<open>
  The loop of \<^verbatim>\<open>show_cmd_help\<close> over the module's command table, with the line printed
  after the loop when no entry matches.
\<close>

fun show_cmd_help_loop ::
  "string \<Rightarrow> string option \<Rightarrow> shell_cmd list \<Rightarrow> shell_state \<Rightarrow> shell_state" where
  "show_cmd_help_loop command a0 [] s =
     console_printf ''Unrecognized command: %s\<newline>'' [Arg_str a0] s"
| "show_cmd_help_loop command a0 (c # cs) s =
     (case sc_cmd c of
        None \<Rightarrow> console_printf ''Unrecognized command: %s\<newline>'' [Arg_str a0] s
      | Some name \<Rightarrow>
          if command = name then
            (let s1 = console_printf ''%s:\<newline>'' [Arg_str (Some name)] s
             in case help c of
                  None \<Rightarrow> console_printf ''\<newline>'' [] s1
                | Some h \<Rightarrow>
                    (case usage h of
                       Some u \<Rightarrow> console_printf ''%s\<newline>'' [Arg_str (Some u)] s1
                     | None \<Rightarrow>
                         (case summary h of
                            Some sm \<Rightarrow> console_printf ''%s\<newline>'' [Arg_str (Some sm)] s1
                          | None \<Rightarrow> console_printf ''\<newline>'' [] s1)))
          else show_cmd_help_loop command a0 cs s)"

definition show_cmd_help :: "string option list \<Rightarrow> shell_state \<Rightarrow> int \<times> shell_state" where
  "show_cmd_help argv s =
     (case get_command_and_module argv s of
        (command, module, s1) \<Rightarrow>
          (case command of
             None \<Rightarrow> (0, s1)
           | Some cmd \<Rightarrow>
               if module = - 1 then (0, s1)
               else (0, show_cmd_help_loop cmd (arg_at argv 0)
                          (commands (shell_modules s1 (nat module))) s1)))"

function print_modules_loop :: "shell_state \<Rightarrow> nat \<Rightarrow> shell_state" where
  "print_modules_loop s module =
     (if module < num_of_shell_entities s
      then print_modules_loop
             (console_printf ''%s\<newline>'' [Arg_str (Some (module_name (shell_modules s module)))] s)
             (Suc module)
      else s)"
  by pat_completeness auto
termination
  by (relation "measure (\<lambda>(s, module). num_of_shell_entities s - module)")
     (auto simp: console_printf_def)

declare print_modules_loop.simps [simp del]

definition print_modules :: "shell_state \<Rightarrow> shell_state" where
  "print_modules s = print_modules_loop s 0"

fun print_module_commands_loop :: "shell_cmd list \<Rightarrow> shell_state \<Rightarrow> shell_state" where
  "print_module_commands_loop [] s = s"
| "print_module_commands_loop (c # cs) s =
     (case sc_cmd c of
        None \<Rightarrow> s
      | Some name \<Rightarrow>
          (let s1 = console_printf ''%-30s'' [Arg_str (Some name)] s;
               s2 = (case help c of
                       None \<Rightarrow> s1
                     | Some h \<Rightarrow>
                         (case summary h of
                            None \<Rightarrow> s1
                          | Some sm \<Rightarrow> console_printf ''%s'' [Arg_str (Some sm)] s1))
           in print_module_commands_loop cs (console_printf ''\<newline>'' [] s2)))"

definition print_module_commands :: "int \<Rightarrow> shell_state \<Rightarrow> shell_state" where
  "print_module_commands module s =
     print_module_commands_loop (commands (shell_modules s (nat module)))
       (console_printf ''help\<newline>'' [] s)"

definition show_help ::
  "nat \<Rightarrow> string option list \<Rightarrow> shell_state \<Rightarrow> fault + int \<times> shell_state" where
  "show_help argc argv s =
     (if argc > 2 \<or> (default_module s \<noteq> - 1 \<and> argc = 2) then Inr (show_cmd_help (drop 1 argv) s)
      else if argc = 2 \<or> (default_module s \<noteq> - 1 \<and> argc = 1) then
        (if default_module s = - 1 then
           (case arg_at argv 1 of
              None \<Rightarrow> Inl Null_dereference
            | Some a1 \<Rightarrow>
                (let module = get_destination_module s a1 MODULE_NAME_MAX_LEN
                 in if module = - 1
                    then Inr (0, console_printf ''Illegal module %s\<newline>'' [Arg_str (Some a1)] s)
                    else Inr (0, print_module_commands module s)))
         else Inr (0, print_module_commands (default_module s) s))
      else
        Inr (0, console_printf ''To select a module, enter 'select <module name>'.\<newline>'' []
                  (print_modules (console_printf ''Available modules:\<newline>'' [] s))))"

section \<open>Selecting the default module\<close>

text \<open>
  \<^verbatim>\<open>strncpy(dst, src, n)\<close> writes exactly \<open>n\<close> bytes: the string, then terminators up to
  \<open>n\<close>; a string of \<open>n\<close> bytes or more is copied without a terminator.
\<close>

definition strncpy :: "char list \<Rightarrow> string \<Rightarrow> nat \<Rightarrow> char list" where
  "strncpy dst src n = take n (src @ replicate n NUL) @ drop n dst"

text \<open>
  \<^verbatim>\<open>strcat(dst, src)\<close> appends at the first terminator of \<open>dst\<close>. When the array has no
  room for the result and its terminator, the write runs past the end of the array.
\<close>

definition strcat :: "char list \<Rightarrow> string \<Rightarrow> fault + char list" where
  "strcat dst src =
     (let k = length (takeWhile (\<lambda>c. c \<noteq> NUL) dst)
      in if k + length src + 1 \<le> length dst
         then Inr (take k dst @ src @ [NUL] @ drop (k + length src + 1) dst)
         else Inl Buffer_overrun)"

definition set_default_module :: "string \<Rightarrow> shell_state \<Rightarrow> fault + int \<times> shell_state" where
  "set_default_module name s =
     (if length name > MODULE_NAME_MAX_LEN then
        Inr (- 1, console_printf ''Module name %s is too long, default is not changed\<newline>''
                    [Arg_str (Some name)] s)
      else
        (let module = get_destination_module s name MODULE_NAME_MAX_LEN
         in if module = - 1 then
              Inr (- 1, console_printf ''Illegal module %s, default is not changed\<newline>''
                          [Arg_str (Some name)] s)
            else
              (case strcat (strncpy (default_module_prompt s) name MODULE_NAME_MAX_LEN) ''> '' of
                 Inl f \<Rightarrow> Inl f
               | Inr p \<Rightarrow> Inr (0, s\<lparr>default_module := module, default_module_prompt := p\<rparr>))))"

definition select_module ::
  "nat \<Rightarrow> string option list \<Rightarrow> shell_state \<Rightarrow> fault + int \<times> shell_state" where
  "select_module argc argv s =
     (if argc = 1 then Inr (0, s\<lparr>default_module := - 1\<rparr>)
      else
        (case arg_at argv 1 of
           None \<Rightarrow> Inl Null_dereference
         | Some name \<Rightarrow>
             (case set_default_module name s of
                Inl f \<Rightarrow> Inl f
              | Inr (result, s1) \<Rightarrow> Inr (0, s1))))"

section \<open>Resolving and running a command\<close>

text \<open>The loop of \<^verbatim>\<open>get_cb\<close> over the module's command table.\<close>

fun get_cb_loop :: "string \<Rightarrow> shell_cmd list \<Rightarrow> cmd_func option" where
  "get_cb_loop command [] = None"
| "get_cb_loop command (c # cs) =
     (case sc_cmd c of
        None \<Rightarrow> None
      | Some name \<Rightarrow>
          if command = name then map_option App (sc_cmd_func c)
          else get_cb_loop command cs)"

definition get_cb ::
  "nat \<Rightarrow> string option list \<Rightarrow> shell_state \<Rightarrow> cmd_func option \<times> shell_state" where
  "get_cb argc argv s =
     (case arg_at argv 0 of
        None \<Rightarrow> (None, console_printf ''Illegal parameter\<newline>'' [] s)
      | Some first_string \<Rightarrow>
          if first_string = [] then (None, console_printf ''Illegal parameter\<newline>'' [] s)
          else if first_string = ''help'' then (Some Show_help, s)
          else if first_string = ''select'' then (Some Select_module, s)
          else if argc = 1 \<and> default_module s = - 1
            then (None, console_printf ''Missing parameter\<newline>'' [] s)
          else
            (case get_command_and_module argv s of
               (command, module, s1) \<Rightarrow>
                 (case command of
                    None \<Rightarrow> (None, s1)
                  | Some cmd \<Rightarrow>
                      if module = - 1 then (None, s1)
                      else (get_cb_loop cmd (commands (shell_modules s1 (nat module))),
                            console_printf ''module: %d, command: %s\<newline>''
                              [Arg_int module, Arg_str (Some cmd)] s1))))"

text \<open>
  Calling through a \<^verbatim>\<open>shell_cmd_func_t\<close>. An application function is outside
  \<^verbatim>\<open>shell.c\<close>: \<open>run k argc argv\<close> is the value function \<open>k\<close> returns, and the call is
  recorded on the console trace. It is taken not to change the statics of \<^verbatim>\<open>shell.c\<close>.
\<close>

definition call_cmd_func ::
  "(nat \<Rightarrow> nat \<Rightarrow> string option list \<Rightarrow> int) \<Rightarrow> cmd_func \<Rightarrow> nat \<Rightarrow> string option list
     \<Rightarrow> shell_state \<Rightarrow> fault + int \<times> shell_state" where
  "call_cmd_func run f argc argv s =
     (case f of
        Show_help \<Rightarrow> show_help argc argv s
      | Select_module \<Rightarrow> select_module argc argv s
      | App k \<Rightarrow>
          Inr (run k argc (take (Suc argc) argv),
               s\<lparr>console := console s @ [Call k argc (take (Suc argc) argv)]\<rparr>))"

text \<open>
  \<^verbatim>\<open>shell_process_command(line)\<close>, in two parts. \<open>shell_process_argv\<close> is the body from the
  call of \<^verbatim>\<open>get_cb\<close> to the end (lines 356 to 380), on the tokenized arguments.
\<close>

definition shell_process_argv ::
  "(nat \<Rightarrow> nat \<Rightarrow> string option list \<Rightarrow> int) \<Rightarrow> nat \<Rightarrow> string option list
     \<Rightarrow> shell_state \<Rightarrow> fault + shell_state" where
  "shell_process_argv run argc argv s =
     (case get_cb argc argv s of
        (cb, s1) \<Rightarrow>
          (case (case cb of
                   Some f \<Rightarrow> Some f
                 | None \<Rightarrow> map_option App (app_cmd_handler s1)) of
             None \<Rightarrow>
               (let s2 = console_printf ''Unrecognized command: %s\<newline>'' [Arg_str (arg_at argv 0)] s1;
                    s3 = console_printf ''Type 'help' for list of available commands\<newline>'' [] s2
                in Inr (console_printf ''%s'' [Arg_str (get_prompt s3)] s3))
           | Some func \<Rightarrow>
               (let argc_offset =
                      (if default_module s1 = - 1 \<and> func \<noteq> Select_module \<and> func \<noteq> Show_help
                       then 1 else 0 :: nat)
                in case call_cmd_func run func (argc - argc_offset) (drop argc_offset argv) s1 of
                     Inl f \<Rightarrow> Inl f
                   | Inr (result, s2) \<Rightarrow>
                       (let s3 = (if result < 0 then snd (show_cmd_help argv s2) else s2)
                        in Inr (console_printf ''%s'' [Arg_str (get_prompt s3)] s3)))))"

text \<open>
  The whole function. The local array \<open>argv\<close> is not initialised: \<open>argv0\<close> is what its
  \<open>SHELL_CMD_ARGC_MAX + 1\<close> entries hold on entry. After tokenizing, each entry is read
  as the string it points to in the line buffer.
\<close>

definition shell_process_command ::
  "syscfg \<Rightarrow> (nat \<Rightarrow> nat \<Rightarrow> string option list \<Rightarrow> int) \<Rightarrow> char list \<Rightarrow> nat option list
     \<Rightarrow> shell_state \<Rightarrow> fault + shell_state" where
  "shell_process_command cfg run line argv0 s =
     (case line2argv line argv0 (SHELL_CMD_ARGC_MAX cfg + 1) of
        (argc, buf, argvp, out) \<Rightarrow>
          (let s0 = s\<lparr>console := console s @ out\<rparr>
           in if argc = 0 then Inr (console_printf ''%s'' [Arg_str (get_prompt s0)] s0)
              else shell_process_argv run argc (map (map_option (cstr buf)) argvp) s0))"

section \<open>Registration and initialisation\<close>

definition shell_register_app_cmd_handler :: "nat option \<Rightarrow> shell_state \<Rightarrow> shell_state" where
  "shell_register_app_cmd_handler handler s = s\<lparr>app_cmd_handler := handler\<rparr>"

definition shell_register_prompt_handler ::
  "(unit \<Rightarrow> string option) option \<Rightarrow> shell_state \<Rightarrow> shell_state" where
  "shell_register_prompt_handler handler s = s\<lparr>app_prompt_handler := handler\<rparr>"

definition shell_register_default_module :: "string \<Rightarrow> shell_state \<Rightarrow> fault + shell_state" where
  "shell_register_default_module name s =
     (case set_default_module name s of
        Inl f \<Rightarrow> Inl f
      | Inr (result, s1) \<Rightarrow>
          if result \<noteq> - 1
          then Inr (console_printf ''%s'' [Arg_str (Some (cstr (default_module_prompt s1) 0))]
                      (console_printf ''\<newline>'' [] s1))
          else Inr s1)"

text \<open>
  \<^verbatim>\<open>shell_init\<close>: the event queue it sets up belongs to the operating system; what is left
  in the statics is the base prompt.
\<close>

definition shell_init :: "syscfg \<Rightarrow> shell_state \<Rightarrow> shell_state" where
  "shell_init cfg s = (if \<not> SHELL_TASK cfg then s else s\<lparr>prompt := Some SHELL_PROMPT\<rparr>)"

section \<open>Example configuration\<close>

text \<open>
  A build with room for three modules and ten arguments, and the registry of the
  example scenario: one module \<open>ble\<close> with one command \<open>scan\<close>, bound to the
  application function number 7, with the summary \<open>scan for peers\<close>.
\<close>

definition example_cfg :: syscfg where
  "example_cfg = \<lparr>SHELL_MAX_MODULES = 3, SHELL_CMD_ARGC_MAX = 10, SHELL_TASK = True\<rparr>"

definition scan_cmd :: shell_cmd where
  "scan_cmd =
     \<lparr>sc_cmd = Some ''scan'', sc_cmd_func = Some 7,
      help = Some \<lparr>summary = Some ''scan for peers'', usage = None\<rparr>\<rparr>"

definition ble_state :: shell_state where
  "ble_state = snd (shell_register example_cfg ''ble'' [scan_cmd] (shell_init example_cfg shell_statics))"

text \<open>
  The same registry with \<open>ble\<close> selected and an application prompt handler that returns
  the empty string.
\<close>

definition quiet_state :: shell_state where
  "quiet_state =
     ble_state\<lparr>default_module := 0,
               default_module_prompt := ''ble> '' @ replicate 18 NUL,
               app_prompt_handler := Some (\<lambda>_. Some [])\<rparr>"

text \<open>
  A registry with a second module whose name has exactly \<open>MODULE_NAME_MAX_LEN\<close>
  characters.
\<close>

definition long_name :: string where
  "long_name = ''aaaaaaaaaaaaaaaaaaaa''"

definition long_state :: shell_state where
  "long_state = snd (shell_register example_cfg long_name [scan_cmd] ble_state)"

section \<open>Lines made of tokens and spaces\<close>

text \<open>
  The input lines of the tokenizer's contract. A token is a non-empty string without a
  space or a terminator. \<open>spaced\<close> writes each token followed by its number of spaces;
  in a well spaced list every token but the last is followed by at least one space. With
  leading spaces added, these are exactly the lines of tokens separated by one or more
  spaces with arbitrary leading and trailing spaces.
\<close>

definition token_ok :: "string \<Rightarrow> bool" where
  "token_ok t = (t \<noteq> [] \<and> CHR '' '' \<notin> set t \<and> NUL \<notin> set t)"

fun spaced :: "(string \<times> nat) list \<Rightarrow> string" where
  "spaced [] = []"
| "spaced ((t, k) # r) = t @ replicate k (CHR '' '') @ spaced r"

fun well_spaced :: "(string \<times> nat) list \<Rightarrow> bool" where
  "well_spaced [] = True"
| "well_spaced [(t, k)] = token_ok t"
| "well_spaced ((t, k) # r) = (token_ok t \<and> 0 < k \<and> well_spaced r)"

text \<open>Eleven tokens, one more than \<open>example_cfg\<close> allows: the line \<open>a b c d e f g h i j k\<close>.\<close>

definition eleven_tokens :: "(string \<times> nat) list" where
  "eleven_tokens =
     [(''a'', 1), (''b'', 1), (''c'', 1), (''d'', 1), (''e'', 1), (''f'', 1),
      (''g'', 1), (''h'', 1), (''i'', 1), (''j'', 1), (''k'', 0)]"

section \<open>The help text of one command\<close>

text \<open>
  What \<^verbatim>\<open>show_cmd_help\<close> prints after the name of the command it found: the usage
  string if there is one, else the summary, else an empty line.
\<close>

definition help_line :: "shell_cmd \<Rightarrow> event" where
  "help_line e =
     (case help e of
        None \<Rightarrow> Printf ''\<newline>'' []
      | Some h \<Rightarrow>
          (case usage h of
             Some u \<Rightarrow> Printf ''%s\<newline>'' [Arg_str (Some u)]
           | None \<Rightarrow>
               (case summary h of
                  Some sm \<Rightarrow> Printf ''%s\<newline>'' [Arg_str (Some sm)]
                | None \<Rightarrow> Printf ''\<newline>'' [])))"

section \<open>Observing calls\<close>

text \<open>
  The calls of application functions recorded on the console between two states, and
  a step that only prints: it changes the console alone and records no call.
\<close>

fun is_call :: "event \<Rightarrow> bool" where
  "is_call (Call k argc argv) = True"
| "is_call (Printf fmt args) = False"

definition calls_since :: "shell_state \<Rightarrow> shell_state \<Rightarrow> event list" where
  "calls_since s t = filter is_call (drop (length (console s)) (console t))"

definition printed :: "shell_state \<Rightarrow> shell_state \<Rightarrow> bool" where
  "printed s t = (\<exists>evs. t = s\<lparr>console := console s @ evs\<rparr> \<and> filter is_call evs = [])"

text \<open>
  The application function in \<open>sc_cmd_func\<close> when \<^verbatim>\<open>shell_process_command\<close> reaches its
  call (after lines 356 to 366): the one \<^verbatim>\<open>get_cb\<close> returned, or else the registered
  \<open>app_cmd_handler\<close>; none when a static handler was resolved.
\<close>

definition resolved_app :: "nat \<Rightarrow> string option list \<Rightarrow> shell_state \<Rightarrow> nat option" where
  "resolved_app argc argv s =
     (case fst (get_cb argc argv s) of
        Some (App k) \<Rightarrow> Some k
      | Some _ \<Rightarrow> None
      | None \<Rightarrow> app_cmd_handler s)"

section \<open>Facts about the example registry\<close>

lemma ble_state_eq:
  "ble_state =
     \<lparr>shell_modules =
        (\<lambda>_. \<lparr>module_name = [], commands = []\<rparr>)(0 := \<lparr>module_name = ''ble'', commands = [scan_cmd]\<rparr>),
      num_of_shell_entities = Suc 0,
      prompt = Some ''shell> '',
      default_module_prompt = replicate 23 NUL,
      default_module = - 1,
      app_cmd_handler = None,
      app_prompt_handler = None,
      console = []\<rparr>"
  by (simp add: ble_state_def shell_register_def shell_init_def shell_statics_def example_cfg_def
      SHELL_PROMPT_def PROMPT_MAX_LEN_def MODULE_NAME_MAX_LEN_def PROMPT_SUFFIX_def)

section \<open>Facts about module lookup\<close>

lemma get_destination_module_loop_range:
  "get_destination_module_loop s str len i = r \<Longrightarrow> r \<noteq> - 1 \<Longrightarrow>
     int i \<le> r \<and> r < int (num_of_shell_entities s)
     \<and> strncmp_eq str (module_name (shell_modules s (nat r))) len"
proof (induction s str len i rule: get_destination_module_loop.induct)
  case (1 s str len i)
  show ?case
  proof (cases "i < num_of_shell_entities s")
    case False
    with "1.prems" show ?thesis
      by (simp add: get_destination_module_loop.simps [of s str len i])
  next
    case True
    show ?thesis
    proof (cases "strncmp_eq str (module_name (shell_modules s i)) len")
      case hit: True
      with True "1.prems" show ?thesis
        by (auto simp: get_destination_module_loop.simps [of s str len i])
    next
      case miss: False
      with True "1.prems" have "get_destination_module_loop s str len (Suc i) = r"
        by (simp add: get_destination_module_loop.simps [of s str len i])
      with "1.IH" True miss "1.prems" show ?thesis
        by fastforce
    qed
  qed
qed

lemma get_destination_module_loop_found:
  "i \<le> j \<Longrightarrow> j < num_of_shell_entities s \<Longrightarrow>
   strncmp_eq str (module_name (shell_modules s j)) len \<Longrightarrow>
   get_destination_module_loop s str len i \<noteq> - 1"
proof (induction s str len i rule: get_destination_module_loop.induct)
  case (1 s str len i)
  show ?case
  proof (cases "strncmp_eq str (module_name (shell_modules s i)) len")
    case True
    with "1.prems" show ?thesis
      by (simp add: get_destination_module_loop.simps [of s str len i])
  next
    case False
    with "1.prems" have "Suc i \<le> j" "i < num_of_shell_entities s"
      by (auto simp: le_less Suc_le_eq)
    with "1.IH" False "1.prems" show ?thesis
      by (simp add: get_destination_module_loop.simps [of s str len i])
  qed
qed

text \<open>
  C1, as the code has it. With fewer registered modules than \<open>SHELL_MAX_MODULES\<close>,
  \<open>shell_register\<close> stores the module at the index equal to the old count, leaves every
  other entry alone, raises the count by one and returns 0 (not the index); the name is
  then found by the lookup. At capacity it returns \<open>-1\<close> and the state, the count
  included, is unchanged.
\<close>

theorem shell_register_appends_returns_0:
  "(num_of_shell_entities s < SHELL_MAX_MODULES cfg \<longrightarrow>
      (case shell_register cfg name cmds s of
         (rc, s') \<Rightarrow>
           rc = 0
           \<and> num_of_shell_entities s' = Suc (num_of_shell_entities s)
           \<and> shell_modules s' (num_of_shell_entities s) = \<lparr>module_name = name, commands = cmds\<rparr>
           \<and> (\<forall>i. i \<noteq> num_of_shell_entities s \<longrightarrow> shell_modules s' i = shell_modules s i)
           \<and> get_destination_module s' name MODULE_NAME_MAX_LEN \<noteq> - 1))
   \<and> (SHELL_MAX_MODULES cfg \<le> num_of_shell_entities s \<longrightarrow>
        shell_register cfg name cmds s = (- 1, s))"
proof (intro conjI impI)
  assume room: "num_of_shell_entities s < SHELL_MAX_MODULES cfg"
  define s' where "s' = snd (shell_register cfg name cmds s)"
  from room have reg: "shell_register cfg name cmds s = (0, s')"
    by (simp add: s'_def shell_register_def)
  from room have fields:
    "num_of_shell_entities s' = Suc (num_of_shell_entities s)"
    "shell_modules s' = (shell_modules s)(num_of_shell_entities s := \<lparr>module_name = name, commands = cmds\<rparr>)"
    by (simp_all add: s'_def shell_register_def)
  have "get_destination_module_loop s' name MODULE_NAME_MAX_LEN 0 \<noteq> - 1"
    by (rule get_destination_module_loop_found [where j = "num_of_shell_entities s"])
       (simp_all add: fields strncmp_eq_def)
  with reg fields show "case shell_register cfg name cmds s of
         (rc, s') \<Rightarrow>
           rc = 0
           \<and> num_of_shell_entities s' = Suc (num_of_shell_entities s)
           \<and> shell_modules s' (num_of_shell_entities s) = \<lparr>module_name = name, commands = cmds\<rparr>
           \<and> (\<forall>i. i \<noteq> num_of_shell_entities s \<longrightarrow> shell_modules s' i = shell_modules s i)
           \<and> get_destination_module s' name MODULE_NAME_MAX_LEN \<noteq> - 1"
    by (simp add: get_destination_module_def)
next
  assume "SHELL_MAX_MODULES cfg \<le> num_of_shell_entities s"
  then show "shell_register cfg name cmds s = (- 1, s)"
    by (simp add: shell_register_def)
qed

theorem shell_register_appends_returns_0_witness:
  "(case shell_register example_cfg ''net'' [] ble_state of
      (rc, s') \<Rightarrow> rc = 0 \<and> num_of_shell_entities s' = 2
         \<and> shell_modules s' 1 = \<lparr>module_name = ''net'', commands = []\<rparr>
         \<and> shell_modules s' 0 = shell_modules ble_state 0)
   \<and> shell_register (example_cfg\<lparr>SHELL_MAX_MODULES := 1\<rparr>) ''net'' [] ble_state = (- 1, ble_state)"
proof -
  have room: "num_of_shell_entities ble_state < SHELL_MAX_MODULES example_cfg"
    by (simp add: ble_state_eq example_cfg_def)
  have full: "SHELL_MAX_MODULES (example_cfg\<lparr>SHELL_MAX_MODULES := 1\<rparr>) \<le> num_of_shell_entities ble_state"
    by (simp add: ble_state_eq)
  from room shell_register_appends_returns_0 [of ble_state example_cfg "''net''" "[]"]
  have "case shell_register example_cfg ''net'' [] ble_state of
      (rc, s') \<Rightarrow> rc = 0 \<and> num_of_shell_entities s' = 2
         \<and> shell_modules s' 1 = \<lparr>module_name = ''net'', commands = []\<rparr>
         \<and> shell_modules s' 0 = shell_modules ble_state 0"
    by (auto simp: ble_state_eq split: prod.splits)
  moreover from full shell_register_appends_returns_0 [of ble_state "example_cfg\<lparr>SHELL_MAX_MODULES := 1\<rparr>" "''net''" "[]"]
  have "shell_register (example_cfg\<lparr>SHELL_MAX_MODULES := 1\<rparr>) ''net'' [] ble_state = (- 1, ble_state)"
    by blast
  ultimately show ?thesis by blast
qed

text \<open>
  C1 as stated fails: with one module registered and room for three, registering a
  second module stores it at index 1, and the value returned is 0, not that index.
\<close>

theorem shell_register_index_counterexample:
  "num_of_shell_entities ble_state < SHELL_MAX_MODULES example_cfg
   \<and> num_of_shell_entities (snd (shell_register example_cfg ''net'' [] ble_state)) = 2
   \<and> shell_modules (snd (shell_register example_cfg ''net'' [] ble_state)) 1
       = \<lparr>module_name = ''net'', commands = []\<rparr>
   \<and> fst (shell_register example_cfg ''net'' [] ble_state) \<noteq> 1"
  by (simp add: shell_register_def ble_state_eq example_cfg_def)


section \<open>The active prompt\<close>

text \<open>
  C4, as the code has it. If an application prompt handler is registered and returns a
  string (any non-null pointer, the empty string included), that string is the prompt.
  Otherwise (no handler, or the handler returns null), the cached module prompt is the
  prompt if a default module is selected, and the base prompt if not.
\<close>

theorem get_prompt_precedence:
  "(\<forall>handler str. app_prompt_handler s = Some handler \<and> handler () = Some str \<longrightarrow>
       get_prompt s = Some str)
   \<and> ((app_prompt_handler s = None
        \<or> (\<exists>handler. app_prompt_handler s = Some handler \<and> handler () = None)) \<longrightarrow>
         (default_module s \<noteq> - 1 \<longrightarrow> get_prompt s = Some (cstr (default_module_prompt s) 0))
       \<and> (default_module s = - 1 \<longrightarrow> get_prompt s = prompt s))"
  by (auto simp: get_prompt_def)

theorem get_prompt_precedence_witness:
  "get_prompt (ble_state\<lparr>app_prompt_handler := Some (\<lambda>_. Some ''app> '')\<rparr>) = Some ''app> ''
   \<and> get_prompt (quiet_state\<lparr>app_prompt_handler := Some (\<lambda>_. None)\<rparr>) = Some ''ble> ''
   \<and> get_prompt ble_state = Some ''shell> ''"
proof -
  have "get_prompt (ble_state\<lparr>app_prompt_handler := Some (\<lambda>_. Some ''app> '')\<rparr>) = Some ''app> ''"
    using get_prompt_precedence [of "ble_state\<lparr>app_prompt_handler := Some (\<lambda>_. Some ''app> '')\<rparr>"]
    by simp
  moreover have "get_prompt (quiet_state\<lparr>app_prompt_handler := Some (\<lambda>_. None)\<rparr>) = Some ''ble> ''"
    using get_prompt_precedence [of "quiet_state\<lparr>app_prompt_handler := Some (\<lambda>_. None)\<rparr>"]
    by (simp add: quiet_state_def cstr_def NUL_def)
  moreover have "get_prompt ble_state = Some ''shell> ''"
    using get_prompt_precedence [of ble_state]
    by (simp add: ble_state_eq)
  ultimately show ?thesis by blast
qed

text \<open>
  C4 as stated fails on the empty string: with \<open>ble\<close> selected and a handler that returns
  \<open>""\<close>, the claim gives the module prompt \<open>ble> \<close>; the code tests the pointer only and
  returns the empty string.
\<close>

theorem get_prompt_empty_string_counterexample:
  "map_option (\<lambda>handler. handler ()) (app_prompt_handler quiet_state) = Some (Some [])
   \<and> default_module quiet_state \<noteq> - 1
   \<and> cstr (default_module_prompt quiet_state) 0 = ''ble> ''
   \<and> get_prompt quiet_state = Some []
   \<and> get_prompt quiet_state \<noteq> Some (cstr (default_module_prompt quiet_state) 0)"
  by (simp add: quiet_state_def get_prompt_def cstr_def NUL_def)

section \<open>Facts about selecting the default module\<close>

lemma takeWhile_terminated:
  "NUL \<notin> set xs \<Longrightarrow> takeWhile (\<lambda>c. c \<noteq> NUL) (xs @ NUL # ys) = xs"
  by (induction xs) auto

lemma strcat_after_strncpy:
  assumes len: "length name \<le> n" and nul: "NUL \<notin> set name"
    and room: "n + length suffix + 1 \<le> length dst"
    and terminated: "length name < n \<or> dst ! n = NUL"
  shows "\<exists>p. strcat (strncpy dst name n) suffix = Inr p
           \<and> length p = length dst
           \<and> take (length name + length suffix + 1) p = name @ suffix @ [NUL]"
proof -
  obtain rest where copied: "strncpy dst name n = name @ NUL # rest"
    and lrest: "length name + 1 + length rest = length dst"
  proof (cases "length name < n")
    case True
    then have "replicate (n - length name) NUL = NUL # replicate (n - length name - 1) NUL"
      by (cases "n - length name") simp_all
    with True len room have "strncpy dst name n = name @ NUL # (replicate (n - length name - 1) NUL @ drop n dst)"
      by (simp add: strncpy_def)
    moreover from True room have "length name + 1 + length (replicate (n - length name - 1) NUL @ drop n dst) = length dst"
      by simp
    ultimately show ?thesis by (rule that)
  next
    case False
    with len terminated have eq: "length name = n" and t: "dst ! n = NUL" by auto
    from room have "n < length dst" by simp
    then have "drop n dst = dst ! n # drop (Suc n) dst"
      by (simp add: Cons_nth_drop_Suc)
    with eq t have "strncpy dst name n = name @ NUL # drop (Suc n) dst"
      by (simp add: strncpy_def)
    moreover from eq room have "length name + 1 + length (drop (Suc n) dst) = length dst"
      by simp
    ultimately show ?thesis by (rule that)
  qed
  from nul have k: "takeWhile (\<lambda>c. c \<noteq> NUL) (name @ NUL # rest) = name"
    by (rule takeWhile_terminated)
  from len room lrest have fits: "length name + length suffix + 1 \<le> length (name @ NUL # rest)"
    by simp
  let ?p = "name @ suffix @ [NUL] @ drop (length name + length suffix + 1) (name @ NUL # rest)"
  from k fits have "strcat (strncpy dst name n) suffix = Inr ?p"
    unfolding copied strcat_def Let_def by simp
  moreover from fits lrest have "length ?p = length dst"
    by simp
  moreover have "take (length name + length suffix + 1) ?p = name @ suffix @ [NUL]"
    by simp
  ultimately show ?thesis by blast
qed

lemma cstr_prefix:
  "take (length str + 1) p = str @ [NUL] \<Longrightarrow> NUL \<notin> set str \<Longrightarrow> cstr p 0 = str"
proof -
  assume a: "take (length str + 1) p = str @ [NUL]" and n: "NUL \<notin> set str"
  have "p = take (length str + 1) p @ drop (length str + 1) p" by simp
  with a have "p = str @ NUL # drop (length str + 1) p" by simp
  then have "cstr p 0 = takeWhile (\<lambda>c. c \<noteq> NUL) (str @ NUL # drop (length str + 1) p)"
    by (simp add: cstr_def)
  with n show ?thesis by (simp add: takeWhile_terminated)
qed

lemma set_default_module_fails:
  assumes "length name > MODULE_NAME_MAX_LEN \<or> get_destination_module s name MODULE_NAME_MAX_LEN = - 1"
  shows "\<exists>fmt. set_default_module name s = Inr (- 1, console_printf fmt [Arg_str (Some name)] s)"
  using assms by (auto simp: set_default_module_def Let_def)

lemma set_default_module_succeeds:
  assumes len: "length name \<le> MODULE_NAME_MAX_LEN"
    and found: "get_destination_module s name MODULE_NAME_MAX_LEN \<noteq> - 1"
    and nul: "NUL \<notin> set name"
    and buf: "length (default_module_prompt s) = PROMPT_MAX_LEN"
    and terminated: "length name < MODULE_NAME_MAX_LEN \<or> default_module_prompt s ! MODULE_NAME_MAX_LEN = NUL"
  shows "\<exists>p. set_default_module name s =
               Inr (0, s\<lparr>default_module := get_destination_module s name MODULE_NAME_MAX_LEN,
                          default_module_prompt := p\<rparr>)
           \<and> length p = PROMPT_MAX_LEN \<and> cstr p 0 = name @ ''> ''"
proof -
  from buf have room: "MODULE_NAME_MAX_LEN + length ''> '' + 1 \<le> length (default_module_prompt s)"
    by (simp add: PROMPT_MAX_LEN_def PROMPT_SUFFIX_def)
  from strcat_after_strncpy [OF len nul room terminated]
  obtain p where p: "strcat (strncpy (default_module_prompt s) name MODULE_NAME_MAX_LEN) ''> '' = Inr p"
    and lp: "length p = length (default_module_prompt s)"
    and tp: "take (length name + length ''> '' + 1) p = name @ ''> '' @ [NUL]"
    by blast
  from tp have "take (length (name @ ''> '') + 1) p = (name @ ''> '') @ [NUL]"
    by simp
  moreover from nul have "NUL \<notin> set (name @ ''> '')"
    by (simp add: NUL_def)
  ultimately have "cstr p 0 = name @ ''> ''"
    by (rule cstr_prefix)
  with p lp buf len found show ?thesis
    by (auto simp: set_default_module_def Let_def)
qed

lemma long_state_eq:
  "long_state =
     \<lparr>shell_modules =
        (\<lambda>_. \<lparr>module_name = [], commands = []\<rparr>)
          (0 := \<lparr>module_name = ''ble'', commands = [scan_cmd]\<rparr>,
           Suc 0 := \<lparr>module_name = long_name, commands = [scan_cmd]\<rparr>),
      num_of_shell_entities = Suc (Suc 0),
      prompt = Some ''shell> '',
      default_module_prompt = replicate 23 NUL,
      default_module = - 1,
      app_cmd_handler = None,
      app_prompt_handler = None,
      console = []\<rparr>"
  by (simp add: long_state_def ble_state_eq shell_register_def example_cfg_def)

lemma long_lookup: "get_destination_module long_state long_name MODULE_NAME_MAX_LEN = 1"
  by (simp add: get_destination_module_def long_state_eq strncmp_eq_def long_name_def
      get_destination_module_loop.simps [of _ _ _ 0] get_destination_module_loop.simps [of _ _ _ "Suc 0"] MODULE_NAME_MAX_LEN_def)

lemma long_state_select:
  "set_default_module long_name long_state =
     Inr (0, long_state\<lparr>default_module := 1, default_module_prompt := long_name @ [CHR ''>'', CHR '' '', NUL]\<rparr>)"
  by (simp add: set_default_module_def long_lookup)
     (simp add: long_state_eq long_name_def MODULE_NAME_MAX_LEN_def strncpy_def strcat_def NUL_def)

text \<open>
  C6. The failure half holds (\<open>set_default_module_fails\<close>: the state changes on the
  console only), and so does the success half while the name is shorter than
  \<open>MODULE_NAME_MAX_LEN\<close> or byte 20 of the prompt array is a terminator
  (\<open>set_default_module_succeeds\<close>). With a name of exactly 20 characters
  \<^verbatim>\<open>strncpy\<close> writes no terminator, and \<^verbatim>\<open>strcat\<close> appends after what an earlier selection
  left behind: selecting the 20-character module a second time no longer yields the name
  followed by \<open>"> "\<close>, the write runs past the end of the 23-byte array.
\<close>

theorem set_default_module_twice_overruns:
  "(case set_default_module long_name long_state of
      Inl f \<Rightarrow> False
    | Inr (rc, s1) \<Rightarrow>
        rc = 0 \<and> cstr (default_module_prompt s1) 0 = long_name @ ''> ''
        \<and> set_default_module long_name s1 = Inl Buffer_overrun)"
proof -
  let ?s1 = "long_state\<lparr>default_module := 1, default_module_prompt := long_name @ [CHR ''>'', CHR '' '', NUL]\<rparr>"
  have look: "get_destination_module ?s1 long_name MODULE_NAME_MAX_LEN = 1"
    by (simp add: get_destination_module_def long_state_eq strncmp_eq_def long_name_def
      get_destination_module_loop.simps [of _ _ _ 0] get_destination_module_loop.simps [of _ _ _ "Suc 0"] MODULE_NAME_MAX_LEN_def)
  have len: "\<not> length long_name > MODULE_NAME_MAX_LEN"
    by (simp add: long_name_def MODULE_NAME_MAX_LEN_def)
  have cat: "strcat (strncpy (long_name @ [CHR ''>'', CHR '' '', NUL]) long_name MODULE_NAME_MAX_LEN) ''> ''
               = Inl Buffer_overrun"
    by (simp add: long_name_def MODULE_NAME_MAX_LEN_def strncpy_def strcat_def NUL_def)
  have "set_default_module long_name ?s1 = Inl Buffer_overrun"
    by (simp add: set_default_module_def Let_def look len cat)
  moreover have "cstr (default_module_prompt ?s1) 0 = long_name @ ''> ''"
    by (simp add: cstr_def long_name_def NUL_def)
  ultimately show ?thesis
    by (simp add: long_state_select)
qed

section \<open>The tokenizer\<close>

text \<open>
  What every run of the loop guarantees, whatever the line: the array keeps its length
  and its entries below the starting count, a non-zero result is below \<open>size\<close> with a
  null entry at that index, and a zero result comes with the notice.
\<close>

lemma line2argv_loop_result:
  assumes "line2argv_loop size' buf str argv argc = (n, b, a, out)"
    and "argc < size'" and "size' \<le> length argv"
  shows "length a = length argv \<and> length b = length buf
         \<and> (\<forall>i<argc. a ! i = argv ! i)
         \<and> (n \<noteq> 0 \<longrightarrow> out = [] \<and> argc \<le> n \<and> n < size' \<and> a ! n = None)
         \<and> (n = 0 \<and> argc \<noteq> 0 \<longrightarrow>
              out = [Printf ''Too many parameters (max %zu)\<newline>'' [Arg_size (size' - 1)]])"
  using assms
proof (induction size' buf str argv argc arbitrary: n b a out rule: line2argv_loop.induct)
  case (1 size' buf str argv argc)
  note res = "1.prems"(1) and lt = "1.prems"(2) and le = "1.prems"(3)
  show ?case
  proof (cases "strchr buf str (CHR '' '')")
    case None
    with res have "n = argc" "b = buf" "a = argv[argc := None]" "out = []"
      by (auto simp: line2argv_loop.simps [of size' buf str argv argc])
    with lt le show ?thesis by auto
  next
    case (Some sp)
    define buf1 where "buf1 = buf[sp := NUL]"
    define str1 where "str1 = skip_spaces buf1 (Suc sp)"
    have unfold: "line2argv_loop size' buf str argv argc =
        (if char_at buf1 str1 = NUL then (argc, buf1, argv[argc := None], [])
         else if Suc argc = size'
           then (0, buf1, argv[argc := Some str1],
                 [Printf ''Too many parameters (max %zu)\<newline>'' [Arg_size (size' - 1)]])
           else line2argv_loop size' buf1 str1 (argv[argc := Some str1]) (Suc argc))"
      by (simp add: line2argv_loop.simps [of size' buf str argv argc] Some buf1_def str1_def Let_def)
    show ?thesis
    proof (cases "char_at buf1 str1 = NUL")
      case True
      with res unfold have "n = argc" "b = buf1" "a = argv[argc := None]" "out = []"
        by auto
      with lt le show ?thesis by (auto simp: buf1_def)
    next
      case False
      show ?thesis
      proof (cases "Suc argc = size'")
        case True
        with res unfold False have "n = 0" "b = buf1" "a = argv[argc := Some str1]"
          "out = [Printf ''Too many parameters (max %zu)\<newline>'' [Arg_size (size' - 1)]]"
          by auto
        with lt le show ?thesis by (auto simp: buf1_def)
      next
        case more: False
        with res unfold False
        have rec: "line2argv_loop size' buf1 str1 (argv[argc := Some str1]) (Suc argc) = (n, b, a, out)"
          by simp
        from lt more have lt': "Suc argc < size'" by simp
        from le have le': "size' \<le> length (argv[argc := Some str1])" by simp
        have "length a = length (argv[argc := Some str1]) \<and> length b = length buf1
         \<and> (\<forall>i<Suc argc. a ! i = (argv[argc := Some str1]) ! i)
         \<and> (n \<noteq> 0 \<longrightarrow> out = [] \<and> Suc argc \<le> n \<and> n < size' \<and> a ! n = None)
         \<and> (n = 0 \<and> Suc argc \<noteq> 0 \<longrightarrow>
              out = [Printf ''Too many parameters (max %zu)\<newline>'' [Arg_size (size' - 1)]])"
          by (rule "1.IH" [OF Some buf1_def str1_def False more rec lt' le'])
        then show ?thesis
          by (auto simp: buf1_def)
      qed
    qed
  qed
qed


lemma line2argv_loop_filled:
  assumes "line2argv_loop size' buf str argv argc = (n, b, a, out)"
    and "argc < size'" and "size' \<le> length argv" and "\<forall>i<argc. argv ! i \<noteq> None" and "n \<noteq> 0"
  shows "\<forall>i<n. a ! i \<noteq> None"
  using assms
proof (induction size' buf str argv argc arbitrary: n b a out rule: line2argv_loop.induct)
  case (1 size' buf str argv argc)
  note res = "1.prems"(1) and lt = "1.prems"(2) and le = "1.prems"(3)
    and filled = "1.prems"(4) and n = "1.prems"(5)
  show ?case
  proof (cases "strchr buf str (CHR '' '')")
    case None
    with res have "n = argc" "a = argv[argc := None]"
      by (auto simp: line2argv_loop.simps [of size' buf str argv argc])
    with filled show ?thesis by simp
  next
    case (Some sp)
    define buf1 where "buf1 = buf[sp := NUL]"
    define str1 where "str1 = skip_spaces buf1 (Suc sp)"
    have unfold: "line2argv_loop size' buf str argv argc =
        (if char_at buf1 str1 = NUL then (argc, buf1, argv[argc := None], [])
         else if Suc argc = size'
           then (0, buf1, argv[argc := Some str1],
                 [Printf ''Too many parameters (max %zu)\<newline>'' [Arg_size (size' - 1)]])
           else line2argv_loop size' buf1 str1 (argv[argc := Some str1]) (Suc argc))"
      by (simp add: line2argv_loop.simps [of size' buf str argv argc] Some buf1_def str1_def Let_def)
    show ?thesis
    proof (cases "char_at buf1 str1 = NUL")
      case True
      with res unfold have "n = argc" "a = argv[argc := None]"
        by auto
      with filled show ?thesis by simp
    next
      case False
      show ?thesis
      proof (cases "Suc argc = size'")
        case True
        with res unfold False n show ?thesis by simp
      next
        case more: False
        with res unfold False
        have rec: "line2argv_loop size' buf1 str1 (argv[argc := Some str1]) (Suc argc) = (n, b, a, out)"
          by simp
        from lt more have lt': "Suc argc < size'" by simp
        from le have le': "size' \<le> length (argv[argc := Some str1])" by simp
        from filled lt le have filled': "\<forall>i<Suc argc. (argv[argc := Some str1]) ! i \<noteq> None"
          by (simp add: nth_list_update less_Suc_eq)
        show ?thesis
          by (rule "1.IH" [OF Some buf1_def str1_def False more rec lt' le' filled' n])
      qed
    qed
  qed
qed

lemma char_at_append: "char_at (pre @ rest) (length pre) = char_at rest 0"
  by (cases rest) (simp_all add: char_at_def)

lemma char_at_Cons_0: "char_at (x # xs) 0 = x"
  by (simp add: char_at_def)

lemma char_at_Nil: "char_at [] p = NUL"
  by (simp add: char_at_def)

lemma skip_spaces_replicate:
  "char_at rest 0 \<noteq> CHR '' '' \<Longrightarrow>
   skip_spaces (pre @ replicate k (CHR '' '') @ rest) (length pre) = length pre + k"
proof (induction k arbitrary: pre)
  case 0
  then show ?case
    by (simp add: skip_spaces.simps [of _ "length pre"] char_at_append)
next
  case (Suc k)
  have "skip_spaces (pre @ replicate (Suc k) (CHR '' '') @ rest) (length pre)
        = skip_spaces ((pre @ '' '') @ replicate k (CHR '' '') @ rest) (length (pre @ '' ''))"
    by (simp add: skip_spaces.simps [of _ "length pre"] char_at_append char_at_Cons_0 NUL_def)
  also from Suc.prems have "\<dots> = length (pre @ '' '') + k"
    by (rule Suc.IH)
  finally show ?case by simp
qed

lemma strchr_token:
  "c \<notin> set t \<Longrightarrow> NUL \<notin> set t \<Longrightarrow>
   strchr (pre @ t @ rest) (length pre) c = strchr (pre @ t @ rest) (length pre + length t) c"
proof (induction t arbitrary: pre)
  case Nil
  show ?case by simp
next
  case (Cons x t)
  then have "strchr (pre @ (x # t) @ rest) (length pre) c
        = strchr ((pre @ [x]) @ t @ rest) (length (pre @ [x])) c"
    by (auto simp: strchr.simps [of _ "length pre"] char_at_append char_at_Cons_0)
  also from Cons.prems have "\<dots> = strchr ((pre @ [x]) @ t @ rest) (length (pre @ [x]) + length t) c"
    by (intro Cons.IH) auto
  finally show ?case by simp
qed

lemma strchr_here: "char_at buf p = c \<Longrightarrow> strchr buf p c = Some p"
  by (simp add: strchr.simps [of buf p])

lemma strchr_end: "char_at buf p = NUL \<Longrightarrow> c \<noteq> NUL \<Longrightarrow> strchr buf p c = None"
  by (simp add: strchr.simps [of buf p])

lemma takeWhile_no_NUL:
  "NUL \<notin> set t \<Longrightarrow>
   takeWhile (\<lambda>c. c \<noteq> NUL) (t @ r) = t @ takeWhile (\<lambda>c. c \<noteq> NUL) r"
  by (induction t) auto

lemma cstr_token:
  assumes "take (length pre + length t) b = pre @ t"
    and "char_at b (length pre + length t) = NUL" and "NUL \<notin> set t"
  shows "cstr b (length pre) = t"
proof -
  have "b = take (length pre + length t) b @ drop (length pre + length t) b"
    by simp
  with assms(1) have b: "b = (pre @ t) @ drop (length pre + length t) b"
    by simp
  then have "char_at b (length pre + length t) = char_at (drop (length pre + length t) b) 0"
    by (metis char_at_append length_append)
  with assms(2) have z: "char_at (drop (length pre + length t) b) 0 = NUL"
    by simp
  from b have "drop (length pre) b = t @ drop (length pre + length t) b"
    by (metis append.assoc append_eq_conv_conj)
  then have "cstr b (length pre) = takeWhile (\<lambda>c. c \<noteq> NUL) (t @ drop (length pre + length t) b)"
    by (simp add: cstr_def)
  also from assms(3) have "\<dots> = t @ takeWhile (\<lambda>c. c \<noteq> NUL) (drop (length pre + length t) b)"
    by (rule takeWhile_no_NUL)
  also from z have "takeWhile (\<lambda>c. c \<noteq> NUL) (drop (length pre + length t) b) = []"
    by (cases "drop (length pre + length t) b") (simp_all add: char_at_def)
  finally show ?thesis by simp
qed


lemma line2argv_loop_last:
  assumes "token_ok t"
  shows "line2argv_loop size' (pre @ t) (length pre) argv argc = (argc, pre @ t, argv[argc := None], [])"
proof -
  from assms have "strchr (pre @ t @ []) (length pre) (CHR '' '')
      = strchr (pre @ t @ []) (length pre + length t) (CHR '' '')"
    by (intro strchr_token) (auto simp: token_ok_def)
  also have "\<dots> = None"
    by (rule strchr_end) (simp_all add: char_at_def NUL_def)
  finally show ?thesis
    by (simp add: line2argv_loop.simps [of size' "pre @ t" "length pre"])
qed

lemma line2argv_loop_step:
  fixes pre t rest :: "char list" and j :: nat
  assumes tok: "token_ok t" and rest: "char_at rest 0 \<noteq> CHR '' ''"
  defines "pre' \<equiv> pre @ t @ NUL # replicate j (CHR '' '')"
  shows "line2argv_loop size' (pre @ t @ replicate (Suc j) (CHR '' '') @ rest) (length pre) argv argc =
     (if char_at rest 0 = NUL then (argc, pre' @ rest, argv[argc := None], [])
      else if Suc argc = size'
        then (0, pre' @ rest, argv[argc := Some (length pre')],
              [Printf ''Too many parameters (max %zu)\<newline>'' [Arg_size (size' - 1)]])
        else line2argv_loop size' (pre' @ rest) (length pre') (argv[argc := Some (length pre')]) (Suc argc))"
proof -
  let ?buf = "pre @ t @ replicate (Suc j) (CHR '' '') @ rest"
  let ?sp = "length pre + length t"
  from tok have "strchr ?buf (length pre) (CHR '' '') = strchr ?buf ?sp (CHR '' '')"
    by (intro strchr_token) (auto simp: token_ok_def)
  also have "\<dots> = Some ?sp"
  proof (rule strchr_here)
    have "?buf = (pre @ t) @ CHR '' '' # replicate j (CHR '' '') @ rest" by simp
    then have "char_at ?buf (length (pre @ t)) = char_at (CHR '' '' # replicate j (CHR '' '') @ rest) 0"
      by (simp only: char_at_append)
    then show "char_at ?buf ?sp = CHR '' ''"
      by (simp add: char_at_Cons_0)
  qed
  finally have sp: "strchr ?buf (length pre) (CHR '' '') = Some ?sp" .
  have buf1: "?buf[?sp := NUL] = pre' @ rest"
    by (simp add: pre'_def list_update_append)
  have "skip_spaces (pre' @ rest) (Suc ?sp)
        = skip_spaces ((pre @ t @ [NUL]) @ replicate j (CHR '' '') @ rest) (length (pre @ t @ [NUL]))"
    by (simp add: pre'_def)
  also from rest have "\<dots> = length (pre @ t @ [NUL]) + j"
    by (rule skip_spaces_replicate)
  also have "\<dots> = length pre'"
    by (simp add: pre'_def)
  finally have str1: "skip_spaces (pre' @ rest) (Suc ?sp) = length pre'" .
  have c: "char_at (pre' @ rest) (length pre') = char_at rest 0"
    by (rule char_at_append)
  show ?thesis
    by (simp add: line2argv_loop.simps [of size' ?buf "length pre"] sp buf1 str1 c Let_def
        del: replicate_Suc replicate.simps append_assoc)
qed


lemma token_ok_first: "token_ok t \<Longrightarrow> char_at (t @ rest) 0 \<noteq> CHR '' '' \<and> char_at (t @ rest) 0 \<noteq> NUL"
  by (cases t) (auto simp: token_ok_def char_at_def)

lemma line2argv_loop_tokens:
  assumes "well_spaced ((t, k) # r)" and "argc + length r < size'" and "size' \<le> length argv"
  shows "\<exists>b a. line2argv_loop size' (pre @ spaced ((t, k) # r)) (length pre) argv argc
                 = (argc + length r, b, a, [])
           \<and> take (length pre + length t) b = pre @ t
           \<and> char_at b (length pre + length t) = NUL
           \<and> (\<forall>i<length r. \<exists>p. a ! (argc + i) = Some p \<and> cstr b p = fst (r ! i))"
  using assms
proof (induction r arbitrary: pre t k argv argc)
  case Nil
  then have tok: "token_ok t" by simp
  show ?case
  proof (cases k)
    case 0
    with tok show ?thesis
      by (simp add: line2argv_loop_last char_at_def)
  next
    case (Suc j)
    have "char_at [] 0 \<noteq> CHR '' ''" by (simp add: char_at_def NUL_def)
    from line2argv_loop_step [OF tok this, of size' pre j argv argc] Suc
    show ?thesis
      by (simp add: char_at_def nth_append)
  qed
next
  case (Cons x r)
  obtain t2 k2 where x: "x = (t2, k2)" by (cases x)
  from Cons.prems(1) x have tok: "token_ok t" and k: "0 < k" and ws: "well_spaced ((t2, k2) # r)"
    by simp_all
  from ws have tok2: "token_ok t2" by (cases r) simp_all
  from k obtain j where j: "k = Suc j" by (cases k) simp_all
  define pre' where "pre' = pre @ t @ NUL # replicate j (CHR '' '')"
  define argv1 where "argv1 = argv[argc := Some (length pre')]"
  let ?rest = "spaced ((t2, k2) # r)"
  from tok2 have first: "char_at ?rest 0 \<noteq> CHR '' ''" "char_at ?rest 0 \<noteq> NUL"
    using token_ok_first [of t2 "replicate k2 (CHR '' '') @ spaced r"] by simp_all
  from Cons.prems(2) have more: "Suc argc \<noteq> size'" and lt': "Suc argc + length r < size'"
    by simp_all
  from Cons.prems(3) have le': "size' \<le> length argv1"
    by (simp add: argv1_def)
  have step: "line2argv_loop size' (pre @ spaced ((t, k) # x # r)) (length pre) argv argc
        = line2argv_loop size' (pre' @ ?rest) (length pre') argv1 (Suc argc)"
    using line2argv_loop_step [OF tok first(1), of size' pre j argv argc] first(2) more
    by (simp add: j x pre'_def argv1_def)
  from Cons.IH [OF ws lt' le', of pre'] obtain b a where
    res: "line2argv_loop size' (pre' @ ?rest) (length pre') argv1 (Suc argc)
            = (Suc argc + length r, b, a, [])"
    and pref: "take (length pre' + length t2) b = pre' @ t2"
    and nul: "char_at b (length pre' + length t2) = NUL"
    and toks: "\<forall>i<length r. \<exists>p. a ! (Suc argc + i) = Some p \<and> cstr b p = fst (r ! i)"
    by blast
  from lt' le' have "Suc argc < size'" by simp
  with line2argv_loop_result [OF res _ le'] have keep: "\<forall>i<Suc argc. a ! i = argv1 ! i"
    by blast
  from Cons.prems(2,3) have "argc < length argv" by simp
  with keep have a_argc: "a ! argc = Some (length pre')"
    by (simp add: argv1_def)
  from tok2 have "NUL \<notin> set t2" by (simp add: token_ok_def)
  with pref nul have c2: "cstr b (length pre') = t2"
    by (rule cstr_token)
  have "take (length pre + length t) (take (length pre' + length t2) b) = pre @ t"
    by (simp only: pref) (simp add: pre'_def)
  then have p1: "take (length pre + length t) b = pre @ t"
    by (simp add: pre'_def min_def)
  have lb: "length pre + length t < length b"
  proof -
    have "length (take (length pre' + length t2) b) = length (pre' @ t2)"
      by (simp only: pref)
    then show ?thesis by (simp add: pre'_def min_def split: if_splits)
  qed
  have "b ! (length pre + length t) = take (length pre' + length t2) b ! (length pre + length t)"
    by (simp add: pre'_def)
  also have "\<dots> = NUL"
    by (simp only: pref) (simp add: pre'_def nth_append)
  finally have n1: "char_at b (length pre + length t) = NUL"
    using lb by (simp add: char_at_def)
  have all: "\<forall>i<length (x # r). \<exists>p. a ! (argc + i) = Some p \<and> cstr b p = fst ((x # r) ! i)"
  proof (intro allI impI)
    fix i assume "i < length (x # r)"
    then show "\<exists>p. a ! (argc + i) = Some p \<and> cstr b p = fst ((x # r) ! i)"
    proof (cases i)
      case 0
      with a_argc c2 x show ?thesis by simp
    next
      case (Suc i')
      with \<open>i < length (x # r)\<close> toks show ?thesis by simp
    qed
  qed
  from step res p1 n1 all show ?case
    by simp
qed


lemma line2argv_loop_too_many:
  assumes "well_spaced ((t, k) # r)" and "argc < size'" and "size' \<le> argc + length r"
  shows "fst (line2argv_loop size' (pre @ spaced ((t, k) # r)) (length pre) argv argc) = 0"
  using assms
proof (induction r arbitrary: pre t k argv argc)
  case Nil
  then show ?case by simp
next
  case (Cons x r)
  obtain t2 k2 where x: "x = (t2, k2)" by (cases x)
  from Cons.prems(1) x have tok: "token_ok t" and k: "0 < k" and ws: "well_spaced ((t2, k2) # r)"
    by simp_all
  from ws have tok2: "token_ok t2" by (cases r) simp_all
  from k obtain j where j: "k = Suc j" by (cases k) simp_all
  define pre' where "pre' = pre @ t @ NUL # replicate j (CHR '' '')"
  let ?rest = "spaced ((t2, k2) # r)"
  from tok2 have first: "char_at ?rest 0 \<noteq> CHR '' ''" "char_at ?rest 0 \<noteq> NUL"
    using token_ok_first [of t2 "replicate k2 (CHR '' '') @ spaced r"] by simp_all
  show ?case
  proof (cases "Suc argc = size'")
    case True
    with line2argv_loop_step [OF tok first(1), of size' pre j argv argc] first(2)
    show ?thesis by (simp add: j x)
  next
    case False
    with Cons.prems(2,3) have lt': "Suc argc < size'" and le': "size' \<le> Suc argc + length r"
      by simp_all
    from False line2argv_loop_step [OF tok first(1), of size' pre j argv argc] first(2)
    have "line2argv_loop size' (pre @ spaced ((t, k) # x # r)) (length pre) argv argc
        = line2argv_loop size' (pre' @ ?rest) (length pre') (argv[argc := Some (length pre')]) (Suc argc)"
      by (simp add: j x pre'_def)
    with Cons.IH [OF ws lt' le', of pre'] show ?thesis
      by simp
  qed
qed

lemma line2argv_blank:
  "line2argv (replicate lead (CHR '' '')) argv size' = (0, replicate lead (CHR '' ''), argv, [])"
proof -
  have "skip_spaces ([] @ replicate lead (CHR '' '') @ []) (length ([] :: char list)) = length ([] :: char list) + lead"
    by (rule skip_spaces_replicate) (simp add: char_at_def NUL_def)
  then have "skip_spaces (replicate lead (CHR '' '')) 0 = lead" by simp
  then show ?thesis
    by (simp add: line2argv_def Let_def char_at_def)
qed

lemma line2argv_enters_loop:
  assumes "token_ok t"
  shows "line2argv (replicate lead (CHR '' '') @ t @ rest) argv size'
         = line2argv_loop size' (replicate lead (CHR '' '') @ t @ rest) lead (argv[0 := Some lead]) 1"
proof -
  let ?line = "replicate lead (CHR '' '') @ t @ rest"
  from assms have first: "char_at (t @ rest) 0 \<noteq> CHR '' ''" "char_at (t @ rest) 0 \<noteq> NUL"
    using token_ok_first by blast+
  have "skip_spaces ([] @ replicate lead (CHR '' '') @ t @ rest) (length ([] :: char list))
        = length ([] :: char list) + lead"
    using first(1) by (rule skip_spaces_replicate)
  then have skip: "skip_spaces ?line 0 = lead" by simp
  have "char_at (replicate lead (CHR '' '') @ t @ rest) (length (replicate lead (CHR '' ''))) = char_at (t @ rest) 0"
    by (rule char_at_append)
  with first(2) have c: "char_at ?line lead \<noteq> NUL" by simp
  from assms have "?line \<noteq> []" by (auto simp: token_ok_def)
  moreover have "hd ?line \<noteq> NUL"
    using assms by (cases lead; cases t) (auto simp: token_ok_def NUL_def)
  ultimately have "strlen ?line 0 \<noteq> 0"
    by (cases ?line) (auto simp: strlen_def cstr_def)
  with skip c show ?thesis
    by (simp add: line2argv_def Let_def)
qed

lemma line2argv_spaced_loop:
  assumes "well_spaced ((t, k) # r)"
  shows "line2argv (replicate lead (CHR '' '') @ spaced ((t, k) # r)) argv size'
         = line2argv_loop size' (replicate lead (CHR '' '') @ spaced ((t, k) # r))
             (length (replicate lead (CHR '' ''))) (argv[0 := Some lead]) 1"
proof -
  from assms have "token_ok t" by (cases r) simp_all
  from line2argv_enters_loop [OF this, of lead "replicate k (CHR '' '') @ spaced r" argv size']
  show ?thesis by simp
qed

lemma line2argv_spaced:
  assumes ws: "well_spaced tks" and size: "1 < size'" and len: "length argv = size'"
    and res: "line2argv (replicate lead (CHR '' '') @ spaced tks) argv size' = (argc, buf, argv', out)"
    and fits: "length tks < size'"
  shows "argc = length tks \<and> out = []
         \<and> take argc (map (map_option (cstr buf)) argv') = map (Some \<circ> fst) tks"
proof (cases tks)
  case Nil
  with res show ?thesis
    by (simp add: line2argv_blank)
next
  case (Cons x r)
  obtain t k where x: "x = (t, k)" by (cases x)
  from ws Cons x have wsr: "well_spaced ((t, k) # r)" by simp
  then have tok: "token_ok t" by (cases r) simp_all
  let ?pre = "replicate lead (CHR '' '')"
  let ?argv1 = "argv[0 := Some lead]"
  from size len have le: "size' \<le> length ?argv1" and one: "(1::nat) < size'" by simp_all
  from res line2argv_spaced_loop [OF wsr, of lead argv size']
  have loop: "line2argv_loop size' (?pre @ spaced ((t, k) # r)) (length ?pre) ?argv1 1
      = (argc, buf, argv', out)"
    by (simp add: Cons x)
  note general = line2argv_loop_result [OF loop one le]
  from fits Cons have lt: "1 + length r < size'" by simp
  from line2argv_loop_tokens [OF wsr lt le, of ?pre] loop
  have argc: "argc = 1 + length r"
    and pref: "take (length ?pre + length t) buf = ?pre @ t"
    and nul: "char_at buf (length ?pre + length t) = NUL"
    and toks: "\<forall>i<length r. \<exists>p. argv' ! (1 + i) = Some p \<and> cstr buf p = fst (r ! i)"
    by auto
  from tok have "NUL \<notin> set t" by (simp add: token_ok_def)
  with pref nul have "cstr buf (length ?pre) = t" by (rule cstr_token)
  then have c0: "cstr buf lead = t" by simp
  from general size len have a0: "argv' ! 0 = Some lead" by simp
  from general have la: "length argv' = size'" using len by simp
  have "take argc (map (map_option (cstr buf)) argv') = map (Some \<circ> fst) tks"
  proof (rule nth_equalityI)
    from argc Cons la lt show "length (take argc (map (map_option (cstr buf)) argv')) = length (map (Some \<circ> fst) tks)"
      by simp
  next
    fix i assume "i < length (take argc (map (map_option (cstr buf)) argv'))"
    with la have i: "i < argc" "i < length argv'" by simp_all
    show "take argc (map (map_option (cstr buf)) argv') ! i = map (Some \<circ> fst) tks ! i"
    proof (cases i)
      case 0
      with i a0 c0 argc Cons x show ?thesis by simp
    next
      case (Suc i')
      with i argc have "i' < length r" by simp
      with toks obtain p where "argv' ! (1 + i') = Some p" "cstr buf p = fst (r ! i')" by blast
      with i Suc argc Cons show ?thesis by simp
    qed
  qed
  moreover from argc Cons have "argc = length tks" by simp
  moreover from argc general have "out = []" by simp
  ultimately show ?thesis by simp
qed

text \<open>
  C3, as the code has it. For a line of tokens separated by one or more spaces, with
  any number of leading and trailing spaces: if there are fewer tokens than \<open>size\<close>
  (at most \<open>SHELL_CMD_ARGC_MAX\<close>), the tokenizer returns their number, prints nothing,
  and the first \<open>argc\<close> entries of \<open>argv\<close> read as exactly the tokens in order; so
  \<open>argc\<close> is zero exactly when there is no token. With \<open>size\<close> tokens or more the line
  is rejected: \<open>argc\<close> is zero and the notice is printed.
\<close>

theorem line2argv_recovers_tokens:
  assumes ws: "well_spaced tks" and size: "1 < size'" and len: "length argv = size'"
    and res: "line2argv (replicate lead (CHR '' '') @ spaced tks) argv size' = (argc, buf, argv', out)"
  shows "(length tks < size' \<longrightarrow>
            argc = length tks \<and> out = []
            \<and> take argc (map (map_option (cstr buf)) argv') = map (Some \<circ> fst) tks
            \<and> (argc = 0 \<longleftrightarrow> tks = []))
       \<and> (size' \<le> length tks \<longrightarrow>
            argc = 0
            \<and> out = [Printf ''Too many parameters (max %zu)\<newline>'' [Arg_size (size' - 1)]])"
proof (intro conjI impI)
  assume fits: "length tks < size'"
  from line2argv_spaced [OF ws size len res fits]
  show "argc = length tks" and "out = []"
    and "take argc (map (map_option (cstr buf)) argv') = map (Some \<circ> fst) tks"
    by auto
  then show "(argc = 0) = (tks = [])"
    by simp
next
  assume over: "size' \<le> length tks"
  with size obtain t k r where tks: "tks = (t, k) # r"
    by (cases tks) auto
  let ?pre = "replicate lead (CHR '' '')"
  let ?argv1 = "argv[0 := Some lead]"
  from ws tks have wsr: "well_spaced ((t, k) # r)" by simp
  from size len have le: "size' \<le> length ?argv1" and one: "(1::nat) < size'" by simp_all
  from res line2argv_spaced_loop [OF wsr, of lead argv size']
  have loop: "line2argv_loop size' (?pre @ spaced ((t, k) # r)) (length ?pre) ?argv1 1
      = (argc, buf, argv', out)"
    by (simp add: tks)
  from over tks have "size' \<le> 1 + length r" by simp
  from line2argv_loop_too_many [OF wsr one this, of ?pre ?argv1] loop
  show "argc = 0" by simp
  with line2argv_loop_result [OF loop one le]
  show "out = [Printf ''Too many parameters (max %zu)\<newline>'' [Arg_size (size' - 1)]]"
    by simp
qed

theorem line2argv_recovers_tokens_witness:
  "well_spaced [(''ble'', 2), (''scan'', 1)]
   \<and> replicate 2 (CHR '' '') @ spaced [(''ble'', 2), (''scan'', 1)] = ''  ble  scan ''
   \<and> (case line2argv ''  ble  scan '' (replicate 11 None) 11 of
         (argc, buf, argv', out) \<Rightarrow>
           argc = 2 \<and> out = [] \<and> take argc (map (map_option (cstr buf)) argv') = [Some ''ble'', Some ''scan''])
   \<and> well_spaced eleven_tokens
   \<and> (case line2argv (spaced eleven_tokens) (replicate 11 None) 11 of
         (argc, buf, argv', out) \<Rightarrow> argc = 0 \<and> out = [Printf ''Too many parameters (max %zu)\<newline>'' [Arg_size 10]])"
proof -
  have ws: "well_spaced [(''ble'', 2), (''scan'', 1)]"
    by (simp add: token_ok_def NUL_def)
  have line: "replicate 2 (CHR '' '') @ spaced [(''ble'', 2), (''scan'', 1)] = ''  ble  scan ''"
    by (simp add: numeral_2_eq_2)
  obtain argc buf argv' out where
    res: "line2argv (replicate 2 (CHR '' '') @ spaced [(''ble'', 2), (''scan'', 1)]) (replicate 11 None) 11
            = (argc, buf, argv', out)"
    by (cases "line2argv (replicate 2 (CHR '' '') @ spaced [(''ble'', 2), (''scan'', 1)]) (replicate 11 None) 11") blast
  from line2argv_recovers_tokens [OF ws _ _ res]
  have "argc = 2 \<and> out = [] \<and> take argc (map (map_option (cstr buf)) argv') = [Some ''ble'', Some ''scan'']"
    by auto
  moreover from res have "line2argv ''  ble  scan '' (replicate 11 None) 11 = (argc, buf, argv', out)"
    unfolding line .
  ultimately have first: "case line2argv ''  ble  scan '' (replicate 11 None) 11 of
         (argc, buf, argv', out) \<Rightarrow>
           argc = 2 \<and> out = [] \<and> take argc (map (map_option (cstr buf)) argv') = [Some ''ble'', Some ''scan'']"
    by auto
  have ws': "well_spaced eleven_tokens"
    by (simp add: eleven_tokens_def token_ok_def NUL_def)
  obtain argc2 buf2 argv2 out2 where
    res2: "line2argv (replicate 0 (CHR '' '') @ spaced eleven_tokens) (replicate 11 None) 11
            = (argc2, buf2, argv2, out2)"
    by (cases "line2argv (replicate 0 (CHR '' '') @ spaced eleven_tokens) (replicate 11 None) 11") blast
  from line2argv_recovers_tokens [OF ws' _ _ res2]
  have "argc2 = 0 \<and> out2 = [Printf ''Too many parameters (max %zu)\<newline>'' [Arg_size 10]]"
    by (simp add: eleven_tokens_def)
  with res2 have second: "case line2argv (spaced eleven_tokens) (replicate 11 None) 11 of
         (argc, buf, argv', out) \<Rightarrow> argc = 0 \<and> out = [Printf ''Too many parameters (max %zu)\<newline>'' [Arg_size 10]]"
    by auto
  from ws line first ws' second show ?thesis by blast
qed

text \<open>
  C3 as stated fails beyond the capacity: the eleven-token line is not empty after
  trimming, and with \<open>SHELL_CMD_ARGC_MAX = 10\<close> the tokenizer returns zero arguments.
\<close>

theorem line2argv_over_capacity_counterexample:
  "well_spaced eleven_tokens
   \<and> spaced eleven_tokens = ''a b c d e f g h i j k''
   \<and> SHELL_CMD_ARGC_MAX example_cfg + 1 = 11
   \<and> fst (line2argv ''a b c d e f g h i j k'' (replicate 11 None) 11) = 0
   \<and> eleven_tokens \<noteq> []"
  by (simp add: eleven_tokens_def token_ok_def NUL_def example_cfg_def) code_simp


lemma line2argv_cases:
  assumes res: "line2argv line argv size' = (argc, buf, argv', out)"
  shows "(argc = 0 \<and> buf = line \<and> argv' = argv \<and> out = [])
       \<or> line2argv_loop size' line (skip_spaces line 0) (argv[0 := Some (skip_spaces line 0)]) 1
            = (argc, buf, argv', out)"
  using res by (auto simp: line2argv_def Let_def split: if_splits)

lemma line2argv_marker:
  assumes res: "line2argv line argv size' = (argc, buf, argv', out)"
    and size: "1 < size'" and len: "length argv = size'" and pos: "argc \<noteq> 0"
  shows "argc < size' \<and> argv' ! argc = None"
proof -
  from line2argv_cases [OF res] pos
  have loop: "line2argv_loop size' line (skip_spaces line 0) (argv[0 := Some (skip_spaces line 0)]) 1
            = (argc, buf, argv', out)"
    by simp
  from size len have "size' \<le> length (argv[0 := Some (skip_spaces line 0)])" and "(1::nat) < size'"
    by simp_all
  with line2argv_loop_result [OF loop] pos show ?thesis by simp
qed

text \<open>
  C9, as the code has it. Whenever the tokenizer returns a non-zero \<open>argc\<close>, that index
  is inside the array, \<open>argv[argc]\<close> is null and every entry before it is not. When it
  returns zero no marker is written: either the array is untouched (empty or blank
  line), or the line was rejected and \<open>argv[0]\<close> still points to the first token.
\<close>

theorem line2argv_end_marker:
  assumes res: "line2argv line argv size' = (argc, buf, argv', out)"
    and size: "1 < size'" and len: "length argv = size'"
  shows "(argc \<noteq> 0 \<longrightarrow>
            argc < size' \<and> argv' ! argc = None \<and> (\<forall>i<argc. argv' ! i \<noteq> None))
       \<and> (argc = 0 \<longrightarrow>
            (argv' = argv \<and> out = [])
            \<or> (argv' ! 0 \<noteq> None
                \<and> out = [Printf ''Too many parameters (max %zu)\<newline>'' [Arg_size (size' - 1)]]))"
proof -
  define str where "str = skip_spaces line 0"
  from line2argv_cases [OF res] consider
    (early) "argc = 0" "argv' = argv" "out = []"
    | (loop) "line2argv_loop size' line str (argv[0 := Some str]) 1 = (argc, buf, argv', out)"
    by (auto simp: str_def)
  then show ?thesis
  proof cases
    case early
    then show ?thesis by simp
  next
    case loop
    from size len have le: "size' \<le> length (argv[0 := Some str])" and one: "(1::nat) < size'"
      by simp_all
    from size len have filled: "\<forall>i<1. (argv[0 := Some str]) ! i \<noteq> None"
      by simp
    note general = line2argv_loop_result [OF loop one le]
    show ?thesis
    proof (cases "argc = 0")
      case True
      with general size len show ?thesis by simp
    next
      case False
      with line2argv_loop_filled [OF loop one le filled] general show ?thesis
        by simp
    qed
  qed
qed

theorem line2argv_end_marker_witness:
  "(case line2argv ''ble scan'' (replicate 11 (Some 99)) 11 of
      (argc, buf, argv', out) \<Rightarrow> argc = 2 \<and> argv' ! argc = None \<and> argv' ! 0 \<noteq> None \<and> argv' ! 1 \<noteq> None)
   \<and> (case line2argv ''   '' (replicate 11 (Some 99)) 11 of
      (argc, buf, argv', out) \<Rightarrow> argc = 0 \<and> argv' = replicate 11 (Some 99) \<and> out = [])"
proof -
  have r1: "line2argv ''ble scan'' (replicate 11 (Some 99)) 11
      = (2, ''ble'' @ NUL # ''scan'',
         [Some 0, Some 4, None, Some 99, Some 99, Some 99, Some 99, Some 99, Some 99, Some 99, Some 99], [])"
    by code_simp
  have r2: "line2argv ''   '' (replicate 11 (Some 99)) 11 = (0, ''   '', replicate 11 (Some 99), [])"
    by code_simp
  from line2argv_end_marker [OF r1] line2argv_end_marker [OF r2] r1 r2
  show ?thesis by simp
qed

text \<open>
  C9 as stated fails when zero is returned: after the rejection of the eleven-token
  line \<open>argv[0]\<close> points to the first token, and after an empty line \<open>argv[0]\<close> holds
  what it held before.
\<close>

theorem line2argv_no_marker_counterexample:
  "(case line2argv ''a b c d e f g h i j k'' (replicate 11 None) (SHELL_CMD_ARGC_MAX example_cfg + 1) of
      (argc, buf, argv', out) \<Rightarrow> argc = 0 \<and> argv' ! argc = Some 0)
   \<and> (case line2argv [] (replicate 11 (Some 99)) (SHELL_CMD_ARGC_MAX example_cfg + 1) of
      (argc, buf, argv', out) \<Rightarrow> argc = 0 \<and> argv' ! argc = Some 99)"
  by code_simp

section \<open>From the line to the arguments\<close>

text \<open>
  The functions that read \<open>argv\<close> read it at indices up to \<open>argc\<close> only, so what the
  array holds past its end marker does not matter; and a line of tokens is processed as
  the array of its tokens followed by the marker.
\<close>

lemma arg_at_take: "i \<le> n \<Longrightarrow> arg_at (take (Suc n) argv) i = arg_at argv i"
  by (simp add: arg_at_def)

lemma arg_at_drop: "arg_at (drop k argv) i = arg_at argv (k + i)"
  by (simp add: arg_at_def) arith

lemma get_command_and_module_args:
  assumes a0: "arg_at argv 0 = arg_at argv' 0" and a1: "arg_at argv 1 = arg_at argv' 1"
  shows "get_command_and_module argv s = get_command_and_module argv' s"
  unfolding get_command_and_module_def a0 a1 ..

lemma show_cmd_help_args:
  assumes a0: "arg_at argv 0 = arg_at argv' 0" and a1: "arg_at argv 1 = arg_at argv' 1"
  shows "show_cmd_help argv s = show_cmd_help argv' s"
  unfolding show_cmd_help_def get_command_and_module_args [OF a0 a1] a0 ..

lemma get_cb_args:
  assumes a0: "arg_at argv 0 = arg_at argv' 0" and a1: "arg_at argv 1 = arg_at argv' 1"
  shows "get_cb argc argv s = get_cb argc argv' s"
  unfolding get_cb_def get_command_and_module_args [OF a0 a1] a0 ..

lemma show_help_take:
  assumes "1 \<le> argc"
  shows "show_help argc (take (Suc argc) argv) s = show_help argc argv s"
proof (cases "argc > 2 \<or> (default_module s \<noteq> - 1 \<and> argc = 2)")
  case True
  then have "2 \<le> argc" by auto
  then have "show_cmd_help (drop 1 (take (Suc argc) argv)) s = show_cmd_help (drop 1 argv) s"
    by (intro show_cmd_help_args) (simp_all add: arg_at_drop arg_at_take del: take_Suc drop_take)
  with True show ?thesis
    by (simp add: show_help_def del: drop_take)
next
  case False
  from assms have a1: "arg_at (take (Suc argc) argv) 1 = arg_at argv 1"
    by (simp add: arg_at_take)
  from False show ?thesis
    unfolding show_help_def a1 by auto
qed

lemma select_module_take:
  assumes "1 \<le> argc"
  shows "select_module argc (take (Suc argc) argv) s = select_module argc argv s"
proof -
  from assms have a1: "arg_at (take (Suc argc) argv) 1 = arg_at argv 1"
    by (simp add: arg_at_take)
  show ?thesis
    unfolding select_module_def a1 ..
qed

lemma call_cmd_func_take:
  assumes "1 \<le> argc"
  shows "call_cmd_func run f argc (take (Suc argc) argv) s = call_cmd_func run f argc argv s"
  using assms by (cases f) (simp_all add: call_cmd_func_def show_help_take select_module_take)

lemma shell_process_argv_take:
  assumes "1 \<le> argc"
  shows "shell_process_argv run argc (take (Suc argc) argv) s = shell_process_argv run argc argv s"
proof -
  from assms have a: "arg_at (take (Suc argc) argv) 0 = arg_at argv 0"
    "arg_at (take (Suc argc) argv) 1 = arg_at argv 1"
    by (simp_all add: arg_at_take)
  then have cb: "get_cb argc (take (Suc argc) argv) s = get_cb argc argv s"
    by (rule get_cb_args)
  from a have hlp: "\<And>s'. show_cmd_help (take (Suc argc) argv) s' = show_cmd_help argv s'"
    by (rule show_cmd_help_args)
  have call: "call_cmd_func run f (argc - off) (drop off (take (Suc argc) argv)) s'
                = call_cmd_func run f (argc - off) (drop off argv) s'"
    if "off = 0 \<or> (off = 1 \<and> f \<noteq> Select_module \<and> f \<noteq> Show_help)" for f off s'
  proof (cases "off = 0")
    case True
    with assms show ?thesis by (simp add: call_cmd_func_take)
  next
    case False
    with that obtain k where "f = App k" "off = 1" by (cases f) auto
    with assms show ?thesis
      by (simp add: call_cmd_func_def drop_take min_def)
  qed
  obtain cb s1 where g: "get_cb argc argv s = (cb, s1)" by (cases "get_cb argc argv s")
  show ?thesis
  proof (cases "case cb of Some f \<Rightarrow> Some f | None \<Rightarrow> map_option App (app_cmd_handler s1)")
    case None
    then show ?thesis
      unfolding shell_process_argv_def cb g a by simp
  next
    case (Some f)
    define off where "off = (if default_module s1 = - 1 \<and> f \<noteq> Select_module \<and> f \<noteq> Show_help
                       then 1 else 0 :: nat)"
    have "off = 0 \<or> (off = 1 \<and> f \<noteq> Select_module \<and> f \<noteq> Show_help)"
      by (simp add: off_def)
    note c = call [OF this]
    from Some show ?thesis
      unfolding shell_process_argv_def cb g hlp
      by (simp add: Let_def c [unfolded off_def] del: drop_take)
  qed
qed


lemma line2argv_length:
  assumes res: "line2argv line argv size' = (argc, buf, argv', out)"
    and size: "1 < size'" and len: "length argv = size'"
  shows "length argv' = length argv"
proof (cases "strlen line 0 = 0 \<or> char_at line (skip_spaces line 0) = NUL")
  case True
  with res show ?thesis
    by (auto simp: line2argv_def Let_def split: if_splits)
next
  case False
  with res have loop: "line2argv_loop size' line (skip_spaces line 0) (argv[0 := Some (skip_spaces line 0)]) 1
                         = (argc, buf, argv', out)"
    by (simp add: line2argv_def Let_def)
  from size len have "size' \<le> length (argv[0 := Some (skip_spaces line 0)])" and "(1::nat) < size'"
    by simp_all
  with line2argv_loop_result [OF loop] show ?thesis by simp
qed

lemma console_append_Nil: "s\<lparr>console := console s @ []\<rparr> = (s :: shell_state)"
  by simp

lemma shell_process_command_spaced:
  assumes ws: "well_spaced tks" and ne: "tks \<noteq> []"
    and fit: "length tks \<le> SHELL_CMD_ARGC_MAX cfg"
    and len: "length argv0 = SHELL_CMD_ARGC_MAX cfg + 1"
  shows "shell_process_command cfg run (replicate lead (CHR '' '') @ spaced tks) argv0 s
         = shell_process_argv run (length tks) (map (Some \<circ> fst) tks @ [None]) s"
proof -
  let ?size = "SHELL_CMD_ARGC_MAX cfg + 1"
  let ?line = "replicate lead (CHR '' '') @ spaced tks"
  obtain argc buf argvp out where res: "line2argv ?line argv0 ?size = (argc, buf, argvp, out)"
    by (cases "line2argv ?line argv0 ?size") blast
  from ne fit have size: "1 < ?size" by (cases tks) simp_all
  from fit have lt: "length tks < ?size" by simp
  let ?argv = "map (map_option (cstr buf)) argvp"
  from line2argv_spaced [OF ws size len res lt]
  have argc: "argc = length tks" and out: "out = []"
    and toks: "take argc ?argv = map (Some \<circ> fst) tks"
    by auto
  from argc ne have pos: "argc \<noteq> 0" "1 \<le> argc" by (cases tks; simp)+
  with line2argv_marker [OF res size len] have mark: "argvp ! argc = None" and inside: "argc < ?size"
    by simp_all
  from line2argv_length [OF res size len] len have la: "length argvp = ?size" by simp
  with inside have "take (Suc argc) ?argv = take argc ?argv @ [?argv ! argc]"
    by (simp add: take_Suc_conv_app_nth)
  with mark inside la toks have canon: "take (Suc argc) ?argv = map (Some \<circ> fst) tks @ [None]"
    by simp
  from res pos out have "shell_process_command cfg run ?line argv0 s = shell_process_argv run argc ?argv s"
    by (simp add: shell_process_command_def)
  also from pos have "\<dots> = shell_process_argv run argc (take (Suc argc) ?argv) s"
    by (simp only: shell_process_argv_take)
  finally show ?thesis
    using canon by (simp only: argc)
qed

section \<open>A single token with no default module\<close>

lemma get_prompt_console [simp]: "get_prompt (s\<lparr>console := c\<rparr>) = get_prompt s"
  by (simp add: get_prompt_def)

lemma get_cb_single_token:
  assumes "tok \<noteq> []" "tok \<noteq> ''help''" "tok \<noteq> ''select''" "default_module s = - 1"
  shows "get_cb (Suc 0) [Some tok, None] s = (None, console_printf ''Missing parameter\<newline>'' [] s)"
  using assms by (simp add: get_cb_def arg_at_def)

text \<open>
  C7, as the code has it. A line of exactly one token that is neither \<open>help\<close> nor
  \<open>select\<close>, with no default module selected, is processed as \<open>argc = 1\<close>; resolution
  returns no callback and prints \<open>Missing parameter\<close>. The line
  \<open>Unrecognized command: <token>\<close> comes from the executor afterwards, and only when no
  application handler is registered (then followed by the hint and the prompt); a
  registered handler is called instead, with no arguments.
\<close>

theorem single_token_missing_parameter:
  fixes lead k :: nat and tok :: string
  assumes tok: "token_ok tok" and nh: "tok \<noteq> ''help''" and ns: "tok \<noteq> ''select''"
    and nodef: "default_module s = - 1"
    and cap: "0 < SHELL_CMD_ARGC_MAX cfg" and len: "length argv0 = SHELL_CMD_ARGC_MAX cfg + 1"
  defines "line \<equiv> replicate lead (CHR '' '') @ tok @ replicate k (CHR '' '')"
  shows "shell_process_command cfg run line argv0 s = shell_process_argv run 1 [Some tok, None] s
    \<and> get_cb 1 [Some tok, None] s = (None, console_printf ''Missing parameter\<newline>'' [] s)
    \<and> (app_cmd_handler s = None \<longrightarrow>
          shell_process_command cfg run line argv0 s =
            Inr (s\<lparr>console := console s @
                   [Printf ''Missing parameter\<newline>'' [],
                    Printf ''Unrecognized command: %s\<newline>'' [Arg_str (Some tok)],
                    Printf ''Type 'help' for list of available commands\<newline>'' [],
                    Printf ''%s'' [Arg_str (get_prompt s)]]\<rparr>))
    \<and> (\<forall>h. app_cmd_handler s = Some h \<and> 0 \<le> run h 0 [None] \<longrightarrow>
          shell_process_command cfg run line argv0 s =
            Inr (s\<lparr>console := console s @
                   [Printf ''Missing parameter\<newline>'' [],
                    Call h 0 [None],
                    Printf ''%s'' [Arg_str (get_prompt s)]]\<rparr>))"
proof -
  from tok have ne: "tok \<noteq> []" by (simp add: token_ok_def)
  from tok have ws: "well_spaced [(tok, k)]" by simp
  from cap have fit: "length [(tok, k)] \<le> SHELL_CMD_ARGC_MAX cfg" by simp
  from shell_process_command_spaced [OF ws _ fit len, of run lead s]
  have canon: "shell_process_command cfg run line argv0 s = shell_process_argv run 1 [Some tok, None] s"
    by (simp add: line_def)
  note cb = get_cb_single_token [OF ne nh ns nodef]
  have none: "shell_process_argv run 1 [Some tok, None] s =
            Inr (s\<lparr>console := console s @
                   [Printf ''Missing parameter\<newline>'' [],
                    Printf ''Unrecognized command: %s\<newline>'' [Arg_str (Some tok)],
                    Printf ''Type 'help' for list of available commands\<newline>'' [],
                    Printf ''%s'' [Arg_str (get_prompt s)]]\<rparr>)"
    if "app_cmd_handler s = None"
    using that by (simp add: shell_process_argv_def cb console_printf_def arg_at_def)
  have some: "shell_process_argv run 1 [Some tok, None] s =
            Inr (s\<lparr>console := console s @
                   [Printf ''Missing parameter\<newline>'' [],
                    Call h 0 [None],
                    Printf ''%s'' [Arg_str (get_prompt s)]]\<rparr>)"
    if "app_cmd_handler s = Some h" "0 \<le> run h 0 [None]" for h
    using that nodef by (simp add: shell_process_argv_def cb console_printf_def call_cmd_func_def)
  from canon cb none some show ?thesis by simp
qed

theorem single_token_missing_parameter_witness:
  "shell_process_command example_cfg (\<lambda>k n a. 0) ''foo'' (replicate 11 None) ble_state =
     Inr (ble_state\<lparr>console :=
            [Printf ''Missing parameter\<newline>'' [],
             Printf ''Unrecognized command: %s\<newline>'' [Arg_str (Some ''foo'')],
             Printf ''Type 'help' for list of available commands\<newline>'' [],
             Printf ''%s'' [Arg_str (Some ''shell> '')]]\<rparr>)
   \<and> shell_process_command example_cfg (\<lambda>k n a. 0) ''foo'' (replicate 11 None)
        (shell_register_app_cmd_handler (Some 3) ble_state) =
     Inr (shell_register_app_cmd_handler (Some 3) ble_state\<lparr>console :=
            [Printf ''Missing parameter\<newline>'' [],
             Call 3 0 [None],
             Printf ''%s'' [Arg_str (Some ''shell> '')]]\<rparr>)"
proof -
  have tok: "token_ok ''foo''" by (simp add: token_ok_def NUL_def)
  have d: "default_module ble_state = - 1" "app_cmd_handler ble_state = None"
    "console ble_state = []" "get_prompt ble_state = Some ''shell> ''"
    by (simp_all add: ble_state_eq get_prompt_def)
  let ?s = "shell_register_app_cmd_handler (Some 3) ble_state"
  have d': "default_module ?s = - 1" "app_cmd_handler ?s = Some 3"
    "console ?s = []" "get_prompt ?s = Some ''shell> ''"
    by (simp_all add: ble_state_eq get_prompt_def shell_register_app_cmd_handler_def)
  have cfg: "0 < SHELL_CMD_ARGC_MAX example_cfg"
    "length (replicate 11 (None :: nat option)) = SHELL_CMD_ARGC_MAX example_cfg + 1"
    by (simp_all add: example_cfg_def)
  have nb: "''foo'' \<noteq> ''help''" "''foo'' \<noteq> ''select''" by simp_all
  note w = single_token_missing_parameter [OF tok nb d(1) cfg, of "\<lambda>k n a. 0" 0 0,
      unfolded replicate_0 append_Nil append_Nil2]
  note w' = single_token_missing_parameter [OF tok nb d'(1) cfg, of "\<lambda>k n a. 0" 0 0,
      unfolded replicate_0 append_Nil append_Nil2]
  from w d(2) have "shell_process_command example_cfg (\<lambda>k n a. 0) ''foo'' (replicate 11 None) ble_state =
     Inr (ble_state\<lparr>console := console ble_state @
            [Printf ''Missing parameter\<newline>'' [],
             Printf ''Unrecognized command: %s\<newline>'' [Arg_str (Some ''foo'')],
             Printf ''Type 'help' for list of available commands\<newline>'' [],
             Printf ''%s'' [Arg_str (get_prompt ble_state)]]\<rparr>)"
    by blast
  moreover have "(0::int) \<le> 0" by simp
  with w' d'(2) have "shell_process_command example_cfg (\<lambda>k n a. 0) ''foo'' (replicate 11 None) ?s =
     Inr (?s\<lparr>console := console ?s @
            [Printf ''Missing parameter\<newline>'' [],
             Call 3 0 [None],
             Printf ''%s'' [Arg_str (get_prompt ?s)]]\<rparr>)"
    by blast
  ultimately show ?thesis
    by (simp only: d d' append_Nil)
qed

text \<open>
  C7 as stated fails: for the line \<open>foo\<close> resolution prints \<open>Missing parameter\<close> and
  nothing that names the token; and with an application handler registered the whole
  processing of the line prints no \<open>Unrecognized command\<close> line either.
\<close>

theorem single_token_resolution_counterexample:
  "get_cb 1 [Some ''foo'', None] ble_state
     = (None, ble_state\<lparr>console := [Printf ''Missing parameter\<newline>'' []]\<rparr>)
   \<and> Printf ''Unrecognized command: %s\<newline>'' [Arg_str (Some ''foo'')]
       \<notin> set (console (snd (get_cb 1 [Some ''foo'', None] ble_state)))
   \<and> map_sum id console
        (shell_process_command example_cfg (\<lambda>k n a. 0) ''foo'' (replicate 11 None)
           (shell_register_app_cmd_handler (Some 3) ble_state))
       = Inr [Printf ''Missing parameter\<newline>'' [], Call 3 0 [None],
              Printf ''%s'' [Arg_str (Some ''shell> '')]]"
proof -
  define s where "s = shell_register_app_cmd_handler (Some 3) ble_state"
  have d: "default_module s = - 1" "app_cmd_handler s = Some 3" "console s = []"
    "get_prompt s = Some ''shell> ''"
    by (simp_all add: s_def shell_register_app_cmd_handler_def ble_state_eq get_prompt_def)
  have ws: "well_spaced [(''foo'', 0)]"
    by (simp add: token_ok_def NUL_def)
  have "shell_process_command example_cfg (\<lambda>k n a. 0) ''foo'' (replicate 11 None) s
        = shell_process_argv (\<lambda>k n a. 0) (Suc 0) [Some ''foo'', None] s"
    using shell_process_command_spaced [OF ws, of example_cfg "replicate 11 None" "\<lambda>k n a. 0" 0 s]
    by (simp add: example_cfg_def)
  also have "\<dots> = Inr (s\<lparr>console := console s @
                   [Printf ''Missing parameter\<newline>'' [],
                    Call 3 0 [None],
                    Printf ''%s'' [Arg_str (get_prompt s)]]\<rparr>)"
  proof -
    have cb: "get_cb (Suc 0) [Some ''foo'', None] s
          = (None, console_printf ''Missing parameter\<newline>'' [] s)"
      using d(1) by (intro get_cb_single_token) simp_all
    from d(1,2) show ?thesis
      by (simp add: shell_process_argv_def cb console_printf_def call_cmd_func_def)
  qed
  finally have "map_sum id console
        (shell_process_command example_cfg (\<lambda>k n a. 0) ''foo'' (replicate 11 None) s)
       = Inr [Printf ''Missing parameter\<newline>'' [], Call 3 0 [None],
              Printf ''%s'' [Arg_str (Some ''shell> '')]]"
    by (simp add: d(3,4))
  then have third: "map_sum id console
        (shell_process_command example_cfg (\<lambda>k n a. 0) ''foo'' (replicate 11 None)
           (shell_register_app_cmd_handler (Some 3) ble_state))
       = Inr [Printf ''Missing parameter\<newline>'' [], Call 3 0 [None],
              Printf ''%s'' [Arg_str (Some ''shell> '')]]"
    by (simp only: s_def)
  have "get_cb 1 [Some ''foo'', None] ble_state
     = (None, ble_state\<lparr>console := [Printf ''Missing parameter\<newline>'' []]\<rparr>)
   \<and> Printf ''Unrecognized command: %s\<newline>'' [Arg_str (Some ''foo'')]
       \<notin> set (console (snd (get_cb 1 [Some ''foo'', None] ble_state)))"
    by (simp add: get_cb_def arg_at_def ble_state_eq console_printf_def)
  with third show ?thesis by blast
qed

section \<open>The select handler\<close>

lemma get_destination_module_loop_console:
  "get_destination_module_loop (s\<lparr>console := c\<rparr>) str len i = get_destination_module_loop s str len i"
proof (induction s str len i rule: get_destination_module_loop.induct)
  case (1 s str len i)
  then show ?case
    by (simp add: get_destination_module_loop.simps [of s str len i]
        get_destination_module_loop.simps [of "s\<lparr>console := c\<rparr>" str len i])
qed

lemma get_destination_module_console [simp]:
  "get_destination_module (s\<lparr>console := c\<rparr>) str len = get_destination_module s str len"
  by (simp add: get_destination_module_def get_destination_module_loop_console)

lemma ble_lookup:
  "get_destination_module ble_state name MODULE_NAME_MAX_LEN
     = (if take 20 name = ''ble'' then 0 else - 1)"
  by (simp add: get_destination_module_def ble_state_eq strncmp_eq_def MODULE_NAME_MAX_LEN_def
      get_destination_module_loop.simps [of _ _ _ 0] get_destination_module_loop.simps [of _ _ _ "Suc 0"])

lemma select_module_result:
  "select_module argc argv s = Inr (rc, s') \<Longrightarrow> rc = 0"
  by (auto simp: select_module_def split: if_splits option.splits sum.splits)

lemma set_default_module_fails_fmt:
  assumes "length name > MODULE_NAME_MAX_LEN \<or> get_destination_module s name MODULE_NAME_MAX_LEN = - 1"
  shows "set_default_module name s =
           Inr (- 1, console_printf
                       (if length name > MODULE_NAME_MAX_LEN
                        then ''Module name %s is too long, default is not changed\<newline>''
                        else ''Illegal module %s, default is not changed\<newline>'')
                       [Arg_str (Some name)] s)"
  using assms by (auto simp: set_default_module_def Let_def)

text \<open>
  C10. Whatever its arguments, when \<open>select_module\<close> returns, it returns 0. When the
  selection fails (the name is longer than \<open>MODULE_NAME_MAX_LEN\<close>, or no module matches
  it), \<open>set_default_module\<close> returns \<open>-1\<close>, \<open>select_module\<close> still returns 0, and
  processing the line \<open>select <name>\<close> adds to the console the diagnostic and the prompt
  and nothing else: no help is rendered.
\<close>

theorem select_module_always_returns_0:
  fixes name :: string
  defines "line \<equiv> ''select '' @ name"
    and "fmt \<equiv> (if length name > MODULE_NAME_MAX_LEN
                 then ''Module name %s is too long, default is not changed\<newline>''
                 else ''Illegal module %s, default is not changed\<newline>'')"
  shows "(\<forall>rc s'. select_module argc argv s = Inr (rc, s') \<longrightarrow> rc = 0)
    \<and> (token_ok name
        \<and> (length name > MODULE_NAME_MAX_LEN \<or> get_destination_module s name MODULE_NAME_MAX_LEN = - 1)
        \<and> 2 \<le> SHELL_CMD_ARGC_MAX cfg \<and> length argv0 = SHELL_CMD_ARGC_MAX cfg + 1 \<longrightarrow>
          set_default_module name s = Inr (- 1, console_printf fmt [Arg_str (Some name)] s)
          \<and> select_module 2 [Some ''select'', Some name, None] s
              = Inr (0, console_printf fmt [Arg_str (Some name)] s)
          \<and> shell_process_command cfg run line argv0 s
              = Inr (s\<lparr>console := console s @
                       [Printf fmt [Arg_str (Some name)],
                        Printf ''%s'' [Arg_str (get_prompt s)]]\<rparr>))"
proof (intro conjI allI impI)
  fix rc s' assume "select_module argc argv s = Inr (rc, s')"
  then show "rc = 0" by (rule select_module_result)
next
  assume a: "token_ok name
        \<and> (length name > MODULE_NAME_MAX_LEN \<or> get_destination_module s name MODULE_NAME_MAX_LEN = - 1)
        \<and> 2 \<le> SHELL_CMD_ARGC_MAX cfg \<and> length argv0 = SHELL_CMD_ARGC_MAX cfg + 1"
  then have tok: "token_ok name"
    and bad: "length name > MODULE_NAME_MAX_LEN \<or> get_destination_module s name MODULE_NAME_MAX_LEN = - 1"
    and cap: "2 \<le> SHELL_CMD_ARGC_MAX cfg" and len: "length argv0 = SHELL_CMD_ARGC_MAX cfg + 1"
    by simp_all
  from set_default_module_fails_fmt [OF bad]
  show fails: "set_default_module name s = Inr (- 1, console_printf fmt [Arg_str (Some name)] s)"
    by (simp only: fmt_def)
  then show sel: "select_module 2 [Some ''select'', Some name, None] s
                 = Inr (0, console_printf fmt [Arg_str (Some name)] s)"
    by (simp add: select_module_def arg_at_def)
  have ws: "well_spaced [(''select'', 1), (name, 0)]"
    using tok by (simp add: token_ok_def NUL_def)
  from cap have fit: "length [(''select'', 1 :: nat), (name, 0)] \<le> SHELL_CMD_ARGC_MAX cfg" by simp
  from shell_process_command_spaced [OF ws _ fit len, of run 0 s]
  have "shell_process_command cfg run line argv0 s
        = shell_process_argv run 2 [Some ''select'', Some name, None] s"
    by (simp add: line_def numeral_2_eq_2)
  also have "\<dots> = Inr (s\<lparr>console := console s @
                          [Printf fmt [Arg_str (Some name)],
                           Printf ''%s'' [Arg_str (get_prompt s)]]\<rparr>)"
    by (simp add: shell_process_argv_def get_cb_def arg_at_def call_cmd_func_def sel console_printf_def)
  finally show "shell_process_command cfg run line argv0 s
        = Inr (s\<lparr>console := console s @
                          [Printf fmt [Arg_str (Some name)],
                           Printf ''%s'' [Arg_str (get_prompt s)]]\<rparr>)" .
qed

theorem select_module_always_returns_0_witness:
  "select_module 2 [Some ''select'', Some ''foo'', None] ble_state
     = Inr (0, ble_state\<lparr>console := [Printf ''Illegal module %s, default is not changed\<newline>'' [Arg_str (Some ''foo'')]]\<rparr>)
   \<and> shell_process_command example_cfg (\<lambda>k n a. - 1) ''select foo'' (replicate 11 None) ble_state
     = Inr (ble_state\<lparr>console :=
              [Printf ''Illegal module %s, default is not changed\<newline>'' [Arg_str (Some ''foo'')],
               Printf ''%s'' [Arg_str (Some ''shell> '')]]\<rparr>)
   \<and> shell_process_command example_cfg (\<lambda>k n a. - 1) ''select aaaaaaaaaaaaaaaaaaaaa'' (replicate 11 None) ble_state
     = Inr (ble_state\<lparr>console :=
              [Printf ''Module name %s is too long, default is not changed\<newline>''
                 [Arg_str (Some ''aaaaaaaaaaaaaaaaaaaaa'')],
               Printf ''%s'' [Arg_str (Some ''shell> '')]]\<rparr>)"
proof -
  have d: "console ble_state = []" "get_prompt ble_state = Some ''shell> ''"
    by (simp_all add: ble_state_eq get_prompt_def)
  have cfg: "2 \<le> SHELL_CMD_ARGC_MAX example_cfg"
    "length (replicate 11 (None :: nat option)) = SHELL_CMD_ARGC_MAX example_cfg + 1"
    by (simp_all add: example_cfg_def)
  have foo: "token_ok ''foo''" "get_destination_module ble_state ''foo'' MODULE_NAME_MAX_LEN = - 1"
    "\<not> length ''foo'' > MODULE_NAME_MAX_LEN"
    by (simp_all add: token_ok_def NUL_def ble_lookup) (simp add: MODULE_NAME_MAX_LEN_def)
  have long: "token_ok ''aaaaaaaaaaaaaaaaaaaaa''" "length ''aaaaaaaaaaaaaaaaaaaaa'' > MODULE_NAME_MAX_LEN"
    by (simp_all add: token_ok_def NUL_def MODULE_NAME_MAX_LEN_def)
  note w1 = select_module_always_returns_0 [of 2 "[Some ''select'', Some ''foo'', None]" ble_state
      "''foo''" example_cfg "replicate 11 None" "\<lambda>k n a. - 1"]
  note w2 = select_module_always_returns_0 [of 2 "[Some ''select'', Some ''foo'', None]" ble_state
      "''aaaaaaaaaaaaaaaaaaaaa''" example_cfg "replicate 11 None" "\<lambda>k n a. - 1"]
  from w1 foo cfg have
    "select_module 2 [Some ''select'', Some ''foo'', None] ble_state
       = Inr (0, console_printf ''Illegal module %s, default is not changed\<newline>'' [Arg_str (Some ''foo'')] ble_state)"
    "shell_process_command example_cfg (\<lambda>k n a. - 1) (''select '' @ ''foo'') (replicate 11 None) ble_state
       = Inr (ble_state\<lparr>console := console ble_state @
              [Printf ''Illegal module %s, default is not changed\<newline>'' [Arg_str (Some ''foo'')],
               Printf ''%s'' [Arg_str (get_prompt ble_state)]]\<rparr>)"
    by simp_all
  moreover from w2 long cfg have
    "shell_process_command example_cfg (\<lambda>k n a. - 1) (''select '' @ ''aaaaaaaaaaaaaaaaaaaaa'') (replicate 11 None) ble_state
       = Inr (ble_state\<lparr>console := console ble_state @
              [Printf ''Module name %s is too long, default is not changed\<newline>''
                 [Arg_str (Some ''aaaaaaaaaaaaaaaaaaaaa'')],
               Printf ''%s'' [Arg_str (get_prompt ble_state)]]\<rparr>)"
    by simp
  ultimately show ?thesis
    by (simp add: d console_printf_def)
qed

section \<open>Running a resolved command\<close>

lemma get_command_and_module_console:
  assumes "get_command_and_module argv s = (Some c, m, s')"
  shows "s' = s \<and> get_command_and_module argv (s\<lparr>console := cs\<rparr>) = (Some c, m, s\<lparr>console := cs\<rparr>)"
  using assms
  by (auto simp: get_command_and_module_def Let_def split: option.splits if_splits)

lemma get_cb_loop_first:
  assumes "\<forall>x\<in>set pre. sc_cmd x \<noteq> None \<and> sc_cmd x \<noteq> Some c" and "sc_cmd e = Some c"
  shows "get_cb_loop c (pre @ e # post) = map_option App (sc_cmd_func e)"
  using assms by (induction pre) (auto split: option.splits)

lemma show_cmd_help_loop_first:
  assumes "\<forall>x\<in>set pre. sc_cmd x \<noteq> None \<and> sc_cmd x \<noteq> Some c" and "sc_cmd e = Some c"
  shows "show_cmd_help_loop c a0 (pre @ e # post) s
         = s\<lparr>console := console s @ [Printf ''%s:\<newline>'' [Arg_str (Some c)], help_line e]\<rparr>"
  using assms
  by (induction pre)
     (auto simp: console_printf_def help_line_def Let_def split: option.splits)

lemma show_cmd_help_loop_prints:
  "\<exists>evs. show_cmd_help_loop c a0 cmds s = s\<lparr>console := console s @ evs\<rparr>
         \<and> (\<forall>k n a. Call k n a \<notin> set evs)"
proof (induction cmds)
  case Nil
  show ?case
    by (rule exI [of _ "[Printf ''Unrecognized command: %s\<newline>'' [Arg_str a0]]"])
       (simp add: console_printf_def)
next
  case (Cons e cmds)
  show ?case
  proof (cases "sc_cmd e")
    case None
    then show ?thesis
      by (intro exI [of _ "[Printf ''Unrecognized command: %s\<newline>'' [Arg_str a0]]"])
         (simp add: console_printf_def)
  next
    case (Some name)
    show ?thesis
    proof (cases "c = name")
      case True
      with Some show_cmd_help_loop_first [of "[]" c e a0 cmds s] show ?thesis
        by (intro exI [of _ "[Printf ''%s:\<newline>'' [Arg_str (Some c)], help_line e]"])
           (auto simp: help_line_def split: option.splits)
    next
      case False
      with Some Cons.IH show ?thesis by simp
    qed
  qed
qed

lemma shell_process_argv_resolved:
  assumes resolved: "get_command_and_module argv s = (Some c, int i, s)"
    and a0: "arg_at argv 0 = Some first"
    and nb: "first \<noteq> []" "first \<noteq> ''help''" "first \<noteq> ''select''"
    and argc: "\<not> (argc = 1 \<and> default_module s = - 1)"
    and cb: "get_cb_loop c (commands (shell_modules s i)) = Some (App k)"
  defines "off \<equiv> (if default_module s = - 1 then 1 else 0 :: nat)"
  defines "s2 \<equiv> s\<lparr>console := console s @
                    [Printf ''module: %d, command: %s\<newline>'' [Arg_int (int i), Arg_str (Some c)],
                     Call k (argc - off) (take (Suc (argc - off)) (drop off argv))]\<rparr>"
  shows "shell_process_argv run argc argv s =
           Inr (let s3 = (if run k (argc - off) (take (Suc (argc - off)) (drop off argv)) < 0
                          then show_cmd_help_loop c (Some first) (commands (shell_modules s i)) s2
                          else s2)
                in console_printf ''%s'' [Arg_str (get_prompt s)] s3)"
proof -
  from nb argc resolved cb a0
  have g: "get_cb argc argv s =
             (Some (App k), console_printf ''module: %d, command: %s\<newline>''
                              [Arg_int (int i), Arg_str (Some c)] s)"
    by (simp add: get_cb_def)
  have h: "show_cmd_help argv s2 = (0, show_cmd_help_loop c (Some first) (commands (shell_modules s i)) s2)"
    using get_command_and_module_console [OF resolved] a0
    by (simp add: show_cmd_help_def s2_def)
  obtain evs where evs: "show_cmd_help_loop c (Some first) (commands (shell_modules s i)) s2
                          = s2\<lparr>console := console s2 @ evs\<rparr>"
    using show_cmd_help_loop_prints by blast
  have p: "get_prompt (show_cmd_help_loop c (Some first) (commands (shell_modules s i)) s2) = get_prompt s"
    "get_prompt s2 = get_prompt s"
    by (simp_all add: evs) (simp_all add: s2_def)
  show ?thesis
    by (simp add: shell_process_argv_def g console_printf_def call_cmd_func_def Let_def h p
        off_def [symmetric] s2_def [symmetric])
qed


lemma get_destination_module_loop_first:
  assumes "i0 \<le> i" and "i < num_of_shell_entities s"
    and "strncmp_eq str (module_name (shell_modules s i)) len"
    and "\<forall>j. i0 \<le> j \<and> j < i \<longrightarrow> \<not> strncmp_eq str (module_name (shell_modules s j)) len"
  shows "get_destination_module_loop s str len i0 = int i"
  using assms
proof (induction s str len i0 rule: get_destination_module_loop.induct)
  case (1 s str len i0)
  show ?case
  proof (cases "i0 = i")
    case True
    with "1.prems" show ?thesis
      by (simp add: get_destination_module_loop.simps [of s str len i])
  next
    case False
    with "1.prems" have lt: "i0 < i" "i0 < num_of_shell_entities s" "Suc i0 \<le> i"
      and miss: "\<not> strncmp_eq str (module_name (shell_modules s i0)) len"
      by auto
    from "1.prems"(4) have rest: "\<forall>j. Suc i0 \<le> j \<and> j < i \<longrightarrow> \<not> strncmp_eq str (module_name (shell_modules s j)) len"
      by auto
    from "1.IH" [OF lt(2) miss lt(3) "1.prems"(2,3) rest] lt miss show ?thesis
      by (simp add: get_destination_module_loop.simps [of s str len i0])
  qed
qed

lemma strncmp_eq_short:
  assumes "length a < n"
  shows "strncmp_eq a b n \<longleftrightarrow> b = a"
proof
  assume "strncmp_eq a b n"
  with assms have t: "take n b = a" by (simp add: strncmp_eq_def)
  then have "length (take n b) < n" using assms by simp
  then have "length b < n" by (simp add: min_def split: if_splits)
  with t show "b = a" by simp
next
  assume "b = a"
  then show "strncmp_eq a b n" by (simp add: strncmp_eq_def)
qed

text \<open>
  C8, as the code has it. With no default module selected, a module named \<open>ble\<close>
  registered (the first of that name, at index \<open>i\<close>) whose table holds a command
  \<open>scan\<close> bound to a function that returns 0, processing \<open>ble scan\<close> calls that function
  with \<open>argc = 1\<close> and \<open>argv = ["scan", NULL]\<close> (the module name stripped, the command
  name kept), and the console receives the resolver's line
  \<open>module: <i>, command: scan\<close> and then the prompt.
\<close>

theorem ble_scan_invocation:
  assumes nodef: "default_module s = - 1"
    and ble: "i < num_of_shell_entities s" "module_name (shell_modules s i) = ''ble''"
      "\<forall>j<i. module_name (shell_modules s j) \<noteq> ''ble''"
    and scan: "commands (shell_modules s i) = pre @ e # post"
      "\<forall>x\<in>set pre. sc_cmd x \<noteq> None \<and> sc_cmd x \<noteq> Some ''scan''"
      "sc_cmd e = Some ''scan''" "sc_cmd_func e = Some k"
    and ret: "run k 1 [Some ''scan'', None] = 0"
    and cap: "2 \<le> SHELL_CMD_ARGC_MAX cfg" and len: "length argv0 = SHELL_CMD_ARGC_MAX cfg + 1"
  shows "shell_process_command cfg run ''ble scan'' argv0 s =
           Inr (s\<lparr>console := console s @
                  [Printf ''module: %d, command: %s\<newline>'' [Arg_int (int i), Arg_str (Some ''scan'')],
                   Call k 1 [Some ''scan'', None],
                   Printf ''%s'' [Arg_str (get_prompt s)]]\<rparr>)"
proof -
  have ws: "well_spaced [(''ble'', 1), (''scan'', 0)]"
    by (simp add: token_ok_def NUL_def)
  from cap have fit: "length [(''ble'', 1 :: nat), (''scan'', 0)] \<le> SHELL_CMD_ARGC_MAX cfg" by simp
  from shell_process_command_spaced [OF ws _ fit len, of run 0 s]
  have canon: "shell_process_command cfg run ''ble scan'' argv0 s
        = shell_process_argv run 2 [Some ''ble'', Some ''scan'', None] s"
    by (simp add: numeral_2_eq_2)
  have short: "length ''ble'' < MODULE_NAME_MAX_LEN" by (simp add: MODULE_NAME_MAX_LEN_def)
  have "get_destination_module_loop s ''ble'' MODULE_NAME_MAX_LEN 0 = int i"
    using ble by (intro get_destination_module_loop_first) (simp_all add: strncmp_eq_short [OF short])
  then have m: "get_destination_module s ''ble'' MODULE_NAME_MAX_LEN = int i"
    by (simp add: get_destination_module_def)
  with nodef have resolved: "get_command_and_module [Some ''ble'', Some ''scan'', None] s = (Some ''scan'', int i, s)"
    by (simp add: get_command_and_module_def arg_at_def)
  from scan have cb: "get_cb_loop ''scan'' (commands (shell_modules s i)) = Some (App k)"
    by (simp add: get_cb_loop_first)
  have a0: "arg_at [Some ''ble'', Some ''scan'', None] 0 = Some ''ble''"
    by (simp add: arg_at_def)
  from nodef have argc: "\<not> (2 = (1::nat) \<and> default_module s = - 1)" by simp
  from shell_process_argv_resolved [OF resolved a0 _ _ _ argc cb, of run] nodef ret
  have "shell_process_argv run 2 [Some ''ble'', Some ''scan'', None] s =
           Inr (s\<lparr>console := console s @
                  [Printf ''module: %d, command: %s\<newline>'' [Arg_int (int i), Arg_str (Some ''scan'')],
                   Call k 1 [Some ''scan'', None],
                   Printf ''%s'' [Arg_str (get_prompt s)]]\<rparr>)"
    by (simp add: console_printf_def)
  with canon show ?thesis by simp
qed

theorem ble_scan_invocation_witness:
  "shell_process_command example_cfg (\<lambda>k n a. 0) ''ble scan'' (replicate 11 None) ble_state =
     Inr (ble_state\<lparr>console :=
            [Printf ''module: %d, command: %s\<newline>'' [Arg_int 0, Arg_str (Some ''scan'')],
             Call 7 1 [Some ''scan'', None],
             Printf ''%s'' [Arg_str (Some ''shell> '')]]\<rparr>)"
proof -
  have d: "default_module ble_state = - 1" "console ble_state = []"
    "get_prompt ble_state = Some ''shell> ''" "0 < num_of_shell_entities ble_state"
    "module_name (shell_modules ble_state 0) = ''ble''"
    "commands (shell_modules ble_state 0) = [] @ scan_cmd # []"
    by (simp_all add: ble_state_eq get_prompt_def)
  have e: "sc_cmd scan_cmd = Some ''scan''" "sc_cmd_func scan_cmd = Some 7"
    by (simp_all add: scan_cmd_def)
  have cfg: "2 \<le> SHELL_CMD_ARGC_MAX example_cfg"
    "length (replicate 11 (None :: nat option)) = SHELL_CMD_ARGC_MAX example_cfg + 1"
    by (simp_all add: example_cfg_def)
  from ble_scan_invocation [OF d(1) d(4) d(5) _ d(6) _ e _ cfg, of "\<lambda>k n a. 0"]
  show ?thesis by (simp add: d)
qed

text \<open>
  C8 as stated fails: the callback is called with \<open>argc = 1\<close>, not 0, and the line
  \<open>module: 0, command: scan\<close> is printed before the call.
\<close>

theorem ble_scan_counterexample:
  "map_sum id console
     (shell_process_command example_cfg (\<lambda>k n a. 0) ''ble scan'' (replicate 11 None) ble_state)
   = Inr [Printf ''module: %d, command: %s\<newline>'' [Arg_int 0, Arg_str (Some ''scan'')],
          Call 7 1 [Some ''scan'', None],
          Printf ''%s'' [Arg_str (Some ''shell> '')]]"
proof -
  have ws: "well_spaced [(''ble'', 1), (''scan'', 0)]"
    by (simp add: token_ok_def NUL_def)
  have "shell_process_command example_cfg (\<lambda>k n a. 0) ''ble scan'' (replicate 11 None) ble_state
        = shell_process_argv (\<lambda>k n a. 0) 2 [Some ''ble'', Some ''scan'', None] ble_state"
    using shell_process_command_spaced [OF ws, of example_cfg "replicate 11 None" "\<lambda>k n a. 0" 0 ble_state]
    by (simp add: numeral_2_eq_2 example_cfg_def)
  also have "\<dots> = Inr (ble_state\<lparr>console := console ble_state @
          [Printf ''module: %d, command: %s\<newline>'' [Arg_int (int 0), Arg_str (Some ''scan'')],
           Call 7 1 [Some ''scan'', None],
           Printf ''%s'' [Arg_str (get_prompt ble_state)]]\<rparr>)"
  proof -
    have d: "default_module ble_state = - 1"
      "get_cb_loop ''scan'' (commands (shell_modules ble_state 0)) = Some (App 7)"
      by (simp_all add: ble_state_eq scan_cmd_def)
    then have resolved: "get_command_and_module [Some ''ble'', Some ''scan'', None] ble_state
          = (Some ''scan'', int 0, ble_state)"
      by (simp add: get_command_and_module_def arg_at_def ble_lookup)
    have a0: "arg_at [Some ''ble'', Some ''scan'', None] 0 = Some ''ble''"
      by (simp add: arg_at_def)
    from d have argc: "\<not> (2 = (1::nat) \<and> default_module ble_state = - 1)" by simp
    from shell_process_argv_resolved [OF resolved a0 _ _ _ argc d(2), of "\<lambda>k n a. 0"] d(1)
    show ?thesis by (simp add: console_printf_def)
  qed
  finally show ?thesis
    by (simp add: ble_state_eq get_prompt_def)
qed

section \<open>A callback that reports a usage error\<close>

lemma drop_off_canon:
  "off \<le> 1 \<Longrightarrow> tks \<noteq> [] \<Longrightarrow>
   take (Suc (length tks - off)) (drop off (map f tks @ [None])) = drop off (map f tks @ [None])"
  by (cases tks) auto

text \<open>
  C5. Take a line whose module and command resolve (with or without a default module)
  to the first entry \<open>e\<close> named \<open>c\<close> of the module's command table, bound to the
  application function \<open>k\<close>, and let that function return a negative value. Then after
  the call the console receives the command's name, then its usage string if it has
  one, else its summary, else an empty line (\<open>help_line e\<close>), and then the active
  prompt, once; no other line follows the call.
\<close>

theorem negative_return_prints_help:
  fixes tks :: "(string \<times> nat) list" and lead :: nat and s :: shell_state
  defines "line \<equiv> replicate lead (CHR '' '') @ spaced tks"
    and "argv \<equiv> map (Some \<circ> fst) tks @ [None]"
    and "off \<equiv> (if default_module s = - 1 then 1 else 0 :: nat)"
  assumes ws: "well_spaced tks" and ne: "tks \<noteq> []"
    and fit: "length tks \<le> SHELL_CMD_ARGC_MAX cfg"
    and len: "length argv0 = SHELL_CMD_ARGC_MAX cfg + 1"
    and nb: "fst (hd tks) \<noteq> ''help''" "fst (hd tks) \<noteq> ''select''"
    and resolved: "get_command_and_module argv s = (Some c, int i, s)"
    and table: "commands (shell_modules s i) = pre @ e # post"
      "\<forall>x\<in>set pre. sc_cmd x \<noteq> None \<and> sc_cmd x \<noteq> Some c"
      "sc_cmd e = Some c" "sc_cmd_func e = Some k"
    and neg: "run k (length tks - off) (drop off argv) < 0"
  shows "shell_process_command cfg run line argv0 s =
           Inr (s\<lparr>console := console s @
                  [Printf ''module: %d, command: %s\<newline>'' [Arg_int (int i), Arg_str (Some c)],
                   Call k (length tks - off) (drop off argv),
                   Printf ''%s:\<newline>'' [Arg_str (Some c)],
                   help_line e,
                   Printf ''%s'' [Arg_str (get_prompt s)]]\<rparr>)"
proof -
  obtain t j r where tks: "tks = (t, j) # r" using ne by (cases tks) auto
  with ws have "token_ok t" by (cases r) simp_all
  then have t: "t \<noteq> []" by (simp add: token_ok_def)
  from tks nb have nb': "t \<noteq> ''help''" "t \<noteq> ''select''" by simp_all
  have a0: "arg_at argv 0 = Some t"
    by (simp add: argv_def tks arg_at_def)
  have argc: "\<not> (length tks = 1 \<and> default_module s = - 1)"
  proof
    assume "length tks = 1 \<and> default_module s = - 1"
    with tks have "r = []" "default_module s = - 1" by simp_all
    with resolved show False
      by (simp add: get_command_and_module_def argv_def tks arg_at_def)
  qed
  from table have cb: "get_cb_loop c (commands (shell_modules s i)) = Some (App k)"
    by (simp add: get_cb_loop_first)
  have off: "off \<le> 1" by (simp add: off_def)
  have args: "take (Suc (length tks - off)) (drop off argv) = drop off argv"
    unfolding argv_def using off ne by (rule drop_off_canon)
  have "shell_process_command cfg run line argv0 s = shell_process_argv run (length tks) argv s"
    unfolding line_def argv_def using ws ne fit len by (rule shell_process_command_spaced)
  also from shell_process_argv_resolved [OF resolved a0 t nb' argc cb, of run] neg
  have "\<dots> = Inr (console_printf ''%s'' [Arg_str (get_prompt s)]
                  (show_cmd_help_loop c (Some t) (commands (shell_modules s i))
                     (s\<lparr>console := console s @
                        [Printf ''module: %d, command: %s\<newline>'' [Arg_int (int i), Arg_str (Some c)],
                         Call k (length tks - off) (drop off argv)]\<rparr>)))"
    by (simp add: off_def [symmetric] args)
  also have "\<dots> = Inr (s\<lparr>console := console s @
                  [Printf ''module: %d, command: %s\<newline>'' [Arg_int (int i), Arg_str (Some c)],
                   Call k (length tks - off) (drop off argv),
                   Printf ''%s:\<newline>'' [Arg_str (Some c)],
                   help_line e,
                   Printf ''%s'' [Arg_str (get_prompt s)]]\<rparr>)"
    by (simp add: table(1) show_cmd_help_loop_first [OF table(2,3)] console_printf_def)
  finally show ?thesis .
qed


theorem negative_return_prints_help_witness:
  "shell_process_command example_cfg (\<lambda>k n a. - 1) ''ble scan'' (replicate 11 None) ble_state =
     Inr (ble_state\<lparr>console :=
            [Printf ''module: %d, command: %s\<newline>'' [Arg_int 0, Arg_str (Some ''scan'')],
             Call 7 1 [Some ''scan'', None],
             Printf ''%s:\<newline>'' [Arg_str (Some ''scan'')],
             Printf ''%s\<newline>'' [Arg_str (Some ''scan for peers'')],
             Printf ''%s'' [Arg_str (Some ''shell> '')]]\<rparr>)
   \<and> shell_process_command example_cfg (\<lambda>k n a. - 1) ''scan'' (replicate 11 None)
        (quiet_state\<lparr>app_prompt_handler := None\<rparr>) =
     Inr (quiet_state\<lparr>app_prompt_handler := None, console :=
            [Printf ''module: %d, command: %s\<newline>'' [Arg_int 0, Arg_str (Some ''scan'')],
             Call 7 1 [Some ''scan'', None],
             Printf ''%s:\<newline>'' [Arg_str (Some ''scan'')],
             Printf ''%s\<newline>'' [Arg_str (Some ''scan for peers'')],
             Printf ''%s'' [Arg_str (Some ''ble> '')]]\<rparr>)"
proof -
  let ?run = "\<lambda>(k::nat) (n::nat) (a::string option list). - 1 :: int"
  have cfg: "length [(''ble'', 1 :: nat), (''scan'', 0)] \<le> SHELL_CMD_ARGC_MAX example_cfg"
    "length [(''scan'', 0 :: nat)] \<le> SHELL_CMD_ARGC_MAX example_cfg"
    "length (replicate 11 (None :: nat option)) = SHELL_CMD_ARGC_MAX example_cfg + 1"
    by (simp_all add: example_cfg_def)
  have e: "sc_cmd scan_cmd = Some ''scan''" "sc_cmd_func scan_cmd = Some 7"
    "help_line scan_cmd = Printf ''%s\<newline>'' [Arg_str (Some ''scan for peers'')]"
    by (simp_all add: scan_cmd_def help_line_def)
  have ws: "well_spaced [(''ble'', 1), (''scan'', 0)]" "well_spaced [(''scan'', 0)]"
    by (simp_all add: token_ok_def NUL_def)
  have d: "default_module ble_state = - 1" "console ble_state = []"
    "get_prompt ble_state = Some ''shell> ''"
    "commands (shell_modules ble_state 0) = [] @ scan_cmd # []"
    by (simp_all add: ble_state_eq get_prompt_def)
  from d(1) have r: "get_command_and_module (map (Some \<circ> fst) [(''ble'', 1 :: nat), (''scan'', 0)] @ [None]) ble_state
      = (Some ''scan'', int 0, ble_state)"
    by (simp add: get_command_and_module_def arg_at_def ble_lookup)
  let ?q = "quiet_state\<lparr>app_prompt_handler := None\<rparr>"
  have d': "default_module ?q = 0" "console ?q = []"
    "get_prompt ?q = Some ''ble> ''"
    "commands (shell_modules ?q 0) = [] @ scan_cmd # []"
    by (simp_all add: quiet_state_def ble_state_eq get_prompt_def cstr_def NUL_def)
  from d'(1) have r': "get_command_and_module (map (Some \<circ> fst) [(''scan'', 0 :: nat)] @ [None]) ?q
      = (Some ''scan'', int 0, ?q)"
    by (simp add: get_command_and_module_def arg_at_def)
  from negative_return_prints_help [OF ws(1) _ cfg(1,3) _ _ r d(4) _ e(1,2), of ?run 0]
  have "shell_process_command example_cfg ?run ''ble scan'' (replicate 11 None) ble_state =
     Inr (ble_state\<lparr>console := console ble_state @
            [Printf ''module: %d, command: %s\<newline>'' [Arg_int 0, Arg_str (Some ''scan'')],
             Call 7 1 [Some ''scan'', None],
             Printf ''%s:\<newline>'' [Arg_str (Some ''scan'')],
             help_line scan_cmd,
             Printf ''%s'' [Arg_str (get_prompt ble_state)]]\<rparr>)"
    by (simp add: d(1))
  moreover
  from negative_return_prints_help [OF ws(2) _ cfg(2,3) _ _ r' d'(4) _ e(1,2), of ?run 0]
  have "shell_process_command example_cfg ?run ''scan'' (replicate 11 None) ?q =
     Inr (?q\<lparr>console := console ?q @
            [Printf ''module: %d, command: %s\<newline>'' [Arg_int 0, Arg_str (Some ''scan'')],
             Call 7 1 [Some ''scan'', None],
             Printf ''%s:\<newline>'' [Arg_str (Some ''scan'')],
             help_line scan_cmd,
             Printf ''%s'' [Arg_str (get_prompt ?q)]]\<rparr>)"
    by (simp add: d'(1))
  ultimately show ?thesis
    by (simp only: d d' e append_Nil)
qed

section \<open>The argument offset\<close>

lemma printed_refl: "printed s s"
  unfolding printed_def by (rule exI [of _ "[]"]) simp

lemma printed_printf: "printed s t \<Longrightarrow> printed s (console_printf fmt args t)"
  unfolding printed_def
proof (elim exE conjE)
  fix evs assume "t = s\<lparr>console := console s @ evs\<rparr>" "filter is_call evs = []"
  then show "\<exists>evs. console_printf fmt args t = s\<lparr>console := console s @ evs\<rparr> \<and> filter is_call evs = []"
    by (intro exI [of _ "evs @ [Printf fmt args]"]) (simp add: console_printf_def)
qed

lemma get_command_and_module_printed:
  "printed s (snd (snd (get_command_and_module argv s)))"
  by (auto simp: get_command_and_module_def Let_def intro!: printed_refl printed_printf
      split: option.splits)

lemma get_cb_printed: "printed s (snd (get_cb argc argv s))"
proof -
  have "printed s (snd (snd (get_command_and_module argv s)))"
    by (rule get_command_and_module_printed)
  then show ?thesis
    by (auto simp: get_cb_def intro!: printed_refl printed_printf split: option.splits prod.splits)
qed

lemma show_cmd_help_loop_printed: "printed s (show_cmd_help_loop c a0 cmds s)"
  by (induction cmds)
     (auto simp: Let_def intro!: printed_refl printed_printf split: option.splits)

lemma printed_trans: "printed s t \<Longrightarrow> printed t u \<Longrightarrow> printed s u"
  unfolding printed_def
proof (elim exE conjE)
  fix evs evs' assume "t = s\<lparr>console := console s @ evs\<rparr>" "filter is_call evs = []"
    "u = t\<lparr>console := console t @ evs'\<rparr>" "filter is_call evs' = []"
  then show "\<exists>evs. u = s\<lparr>console := console s @ evs\<rparr> \<and> filter is_call evs = []"
    by (intro exI [of _ "evs @ evs'"]) simp
qed

lemma show_cmd_help_printed: "printed s (snd (show_cmd_help argv s))"
proof -
  have "printed s (snd (snd (get_command_and_module argv s)))"
    by (rule get_command_and_module_printed)
  then show ?thesis
    by (auto simp: show_cmd_help_def split: option.splits prod.splits
        intro: printed_trans [OF _ show_cmd_help_loop_printed])
qed

lemma shell_process_argv_app:
  fixes s :: shell_state
  defines "off \<equiv> (if default_module s = - 1 then 1 else 0 :: nat)"
  assumes res: "resolved_app argc argv s = Some f"
  shows "\<exists>t. shell_process_argv run argc argv s = Inr t
           \<and> calls_since s t = [Call f (argc - off) (take (Suc (argc - off)) (drop off argv))]"
proof -
  obtain cb s1 where g: "get_cb argc argv s = (cb, s1)" by (cases "get_cb argc argv s")
  with get_cb_printed [of s argc argv] obtain evs1 where
    s1: "s1 = s\<lparr>console := console s @ evs1\<rparr>" and e1: "filter is_call evs1 = []"
    by (auto simp: printed_def)
  from res g s1 have func: "(case cb of Some f \<Rightarrow> Some f | None \<Rightarrow> map_option App (app_cmd_handler s1)) = Some (App f)"
    by (auto simp: resolved_app_def split: option.splits cmd_func.splits)
  let ?args = "take (Suc (argc - off)) (drop off argv)"
  let ?call = "Call f (argc - off) ?args"
  define s2 where "s2 = s1\<lparr>console := console s1 @ [?call]\<rparr>"
  define s3 where "s3 = (if run f (argc - off) ?args < 0 then snd (show_cmd_help argv s2) else s2)"
  have "printed s2 s3"
    by (simp add: s3_def printed_refl show_cmd_help_printed)
  then obtain evs3 where s3: "s3 = s2\<lparr>console := console s2 @ evs3\<rparr>" and e3: "filter is_call evs3 = []"
    by (auto simp: printed_def)
  from s1 have off': "(if default_module s1 = - 1 \<and> App f \<noteq> Select_module \<and> App f \<noteq> Show_help then 1 else 0 :: nat) = off"
    by (simp add: off_def)
  have run: "shell_process_argv run argc argv s = Inr (console_printf ''%s'' [Arg_str (get_prompt s3)] s3)"
  proof (cases cb)
    case None
    with res g have "app_cmd_handler s = Some f"
      by (simp add: resolved_app_def)
    with None show ?thesis
      by (simp add: shell_process_argv_def g call_cmd_func_def Let_def s3_def s2_def off_def s1)
  next
    case (Some x)
    with res g have "x = App f"
      by (auto simp: resolved_app_def split: cmd_func.splits)
    with Some show ?thesis
      by (simp add: shell_process_argv_def g call_cmd_func_def Let_def s3_def s2_def off_def s1)
  qed
  have "console (console_printf ''%s'' [Arg_str (get_prompt s3)] s3)
          = console s @ (evs1 @ [?call] @ evs3 @ [Printf ''%s'' [Arg_str (get_prompt s3)]])"
    by (simp add: console_printf_def s3 s2_def s1)
  then have "calls_since s (console_printf ''%s'' [Arg_str (get_prompt s3)] s3) = [?call]"
    using e1 e3 by (simp add: calls_since_def)
  with run show ?thesis by blast
qed


lemma get_cb_prefixed:
  assumes "default_module s = - 1" and "m \<noteq> []" "m \<noteq> ''help''" "m \<noteq> ''select''"
    and "c \<noteq> []" and "get_destination_module s m MODULE_NAME_MAX_LEN = d" and "d \<noteq> - 1"
  shows "fst (get_cb (Suc (Suc n)) (Some m # Some c # rest) s)
         = get_cb_loop c (commands (shell_modules s (nat d)))"
  using assms by (simp add: get_cb_def get_command_and_module_def arg_at_def)

lemma get_cb_selected:
  assumes "default_module s = d" and "d \<noteq> - 1" and "c \<noteq> []" "c \<noteq> ''help''" "c \<noteq> ''select''"
  shows "fst (get_cb argc (Some c # rest) s) = get_cb_loop c (commands (shell_modules s (nat d)))"
  using assms by (simp add: get_cb_def get_command_and_module_def arg_at_def)

text \<open>
  C2. Let a line hold the token \<open>m\<close> followed by the tokens \<open>tks\<close>, and let \<open>argv\<close> be
  \<open>tks\<close> with the end marker. With no default module selected, when the callback
  resolved for the line is an application function \<open>f\<close> (so neither static handler),
  processing the line calls \<open>f\<close> once, with \<open>argc - 1\<close> arguments starting at
  \<open>argv[1]\<close>: the leading token is stripped. With a default module selected,
  processing the line \<open>tks\<close> calls the resolved function once with all \<open>argc\<close>
  arguments. Both calls carry the same count and the same arguments; and when the
  selected module is the one \<open>m\<close> names in the same registry, and neither \<open>m\<close> nor the
  command is \<open>help\<close> or \<open>select\<close>, both lines resolve to the same function.
\<close>

theorem module_prefix_stripped:
  fixes tks :: "(string \<times> nat) list" and m :: string and j lead lead' :: nat
  defines "argv \<equiv> map (Some \<circ> fst) tks @ [None]"
    and "prefixed \<equiv> replicate lead (CHR '' '') @ spaced ((m, Suc j) # tks)"
    and "plain \<equiv> replicate lead' (CHR '' '') @ spaced tks"
  assumes ws: "well_spaced ((m, Suc j) # tks)"
    and fit: "Suc (length tks) \<le> SHELL_CMD_ARGC_MAX cfg"
    and len: "length argv0 = SHELL_CMD_ARGC_MAX cfg + 1" "length argv0' = SHELL_CMD_ARGC_MAX cfg + 1"
    and nodef: "default_module s = - 1" and selected: "default_module s' \<noteq> - 1"
  shows "(\<forall>f. resolved_app (Suc (length tks)) (Some m # argv) s = Some f \<longrightarrow>
            (\<exists>t. shell_process_command cfg run prefixed argv0 s = Inr t
                 \<and> calls_since s t = [Call f (length tks) argv]))
    \<and> (\<forall>f. tks \<noteq> [] \<and> resolved_app (length tks) argv s' = Some f \<longrightarrow>
            (\<exists>t. shell_process_command cfg run plain argv0' s' = Inr t
                 \<and> calls_since s' t = [Call f (length tks) argv]))
    \<and> (tks \<noteq> [] \<and> m \<noteq> ''help'' \<and> m \<noteq> ''select''
        \<and> fst (hd tks) \<noteq> ''help'' \<and> fst (hd tks) \<noteq> ''select''
        \<and> shell_modules s' = shell_modules s \<and> app_cmd_handler s' = app_cmd_handler s
        \<and> default_module s' = get_destination_module s m MODULE_NAME_MAX_LEN \<longrightarrow>
          resolved_app (Suc (length tks)) (Some m # argv) s = resolved_app (length tks) argv s')"
proof (intro conjI allI impI)
  fix f assume res: "resolved_app (Suc (length tks)) (Some m # argv) s = Some f"
  have "shell_process_command cfg run prefixed argv0 s
        = shell_process_argv run (length ((m, Suc j) # tks)) (map (Some \<circ> fst) ((m, Suc j) # tks) @ [None]) s"
    unfolding prefixed_def using ws _ _ len(1)
    by (rule shell_process_command_spaced) (simp_all add: fit)
  then have canon: "shell_process_command cfg run prefixed argv0 s
        = shell_process_argv run (Suc (length tks)) (Some m # argv) s"
    by (simp add: argv_def)
  from shell_process_argv_app [OF res, of run] nodef obtain t where
    "shell_process_argv run (Suc (length tks)) (Some m # argv) s = Inr t"
    "calls_since s t = [Call f (length tks) (take (Suc (length tks)) argv)]"
    by auto
  with canon show "\<exists>t. shell_process_command cfg run prefixed argv0 s = Inr t
                 \<and> calls_since s t = [Call f (length tks) argv]"
    by (simp add: argv_def)
next
  fix f assume "tks \<noteq> [] \<and> resolved_app (length tks) argv s' = Some f"
  then have ne: "tks \<noteq> []" and res: "resolved_app (length tks) argv s' = Some f" by simp_all
  from ws ne have ws': "well_spaced tks" by (cases tks) simp_all
  from fit have fit': "length tks \<le> SHELL_CMD_ARGC_MAX cfg" by simp
  have canon: "shell_process_command cfg run plain argv0' s'
        = shell_process_argv run (length tks) argv s'"
    unfolding plain_def argv_def using ws' ne fit' len(2)
    by (rule shell_process_command_spaced)
  from shell_process_argv_app [OF res, of run] selected obtain t where
    "shell_process_argv run (length tks) argv s' = Inr t"
    "calls_since s' t = [Call f (length tks) (take (Suc (length tks)) argv)]"
    by auto
  with canon show "\<exists>t. shell_process_command cfg run plain argv0' s' = Inr t
                 \<and> calls_since s' t = [Call f (length tks) argv]"
    by (simp add: argv_def)
next
  assume a: "tks \<noteq> [] \<and> m \<noteq> ''help'' \<and> m \<noteq> ''select''
        \<and> fst (hd tks) \<noteq> ''help'' \<and> fst (hd tks) \<noteq> ''select''
        \<and> shell_modules s' = shell_modules s \<and> app_cmd_handler s' = app_cmd_handler s
        \<and> default_module s' = get_destination_module s m MODULE_NAME_MAX_LEN"
  then obtain c k r where tks: "tks = (c, k) # r" by (cases tks) auto
  from ws tks have "token_ok m" "token_ok c" by (cases r; simp)+
  then have nonempty: "m \<noteq> []" "c \<noteq> []" by (simp_all add: token_ok_def)
  from a tks have nb: "m \<noteq> ''help''" "m \<noteq> ''select''" "c \<noteq> ''help''" "c \<noteq> ''select''"
    and same: "shell_modules s' = shell_modules s" "app_cmd_handler s' = app_cmd_handler s"
    and d: "default_module s' = get_destination_module s m MODULE_NAME_MAX_LEN"
    by simp_all
  from d selected have found: "get_destination_module s m MODULE_NAME_MAX_LEN \<noteq> - 1" by simp
  have "fst (get_cb (Suc (length tks)) (Some m # argv) s)
        = get_cb_loop c (commands (shell_modules s (nat (get_destination_module s m MODULE_NAME_MAX_LEN))))"
    using get_cb_prefixed [OF nodef nonempty(1) nb(1,2) nonempty(2) refl found, of "length r" "map (Some \<circ> fst) r @ [None]"]
    by (simp add: argv_def tks)
  moreover have "fst (get_cb (length tks) argv s')
        = get_cb_loop c (commands (shell_modules s' (nat (default_module s'))))"
    using get_cb_selected [OF refl selected nonempty(2) nb(3,4), of "length tks" "map (Some \<circ> fst) r @ [None]"]
    by (simp add: argv_def tks)
  ultimately show "resolved_app (Suc (length tks)) (Some m # argv) s = resolved_app (length tks) argv s'"
    unfolding resolved_app_def same(2) by (simp add: same(1) d)
qed


theorem module_prefix_stripped_witness:
  "map_sum id (calls_since ble_state)
     (shell_process_command example_cfg (\<lambda>k n a. 0) ''ble scan now'' (replicate 11 None) ble_state)
     = Inr [Call 7 2 [Some ''scan'', Some ''now'', None]]
   \<and> map_sum id (calls_since (quiet_state\<lparr>app_prompt_handler := None\<rparr>))
     (shell_process_command example_cfg (\<lambda>k n a. 0) ''scan now'' (replicate 11 None)
        (quiet_state\<lparr>app_prompt_handler := None\<rparr>))
     = Inr [Call 7 2 [Some ''scan'', Some ''now'', None]]
   \<and> resolved_app 3 [Some ''ble'', Some ''scan'', Some ''now'', None] ble_state
     = resolved_app 2 [Some ''scan'', Some ''now'', None] (quiet_state\<lparr>app_prompt_handler := None\<rparr>)"
proof -
  let ?run = "\<lambda>(k::nat) (n::nat) (a::string option list). 0 :: int"
  let ?q = "quiet_state\<lparr>app_prompt_handler := None\<rparr>"
  let ?tks = "[(''scan'', 1 :: nat), (''now'', 0)]"
  have ws: "well_spaced ((''ble'', Suc 0) # ?tks)"
    by (simp add: token_ok_def NUL_def)
  have cfg: "Suc (length ?tks) \<le> SHELL_CMD_ARGC_MAX example_cfg"
    "length (replicate 11 (None :: nat option)) = SHELL_CMD_ARGC_MAX example_cfg + 1"
    by (simp_all add: example_cfg_def)
  have d: "default_module ble_state = - 1" "default_module ?q \<noteq> - 1"
    "shell_modules ?q = shell_modules ble_state" "app_cmd_handler ?q = app_cmd_handler ble_state"
    "default_module ?q = get_destination_module ble_state ''ble'' MODULE_NAME_MAX_LEN"
    by (simp_all add: quiet_state_def ble_lookup) (simp_all add: ble_state_eq)
  have r1: "resolved_app (Suc (length ?tks)) (Some ''ble'' # map (Some \<circ> fst) ?tks @ [None]) ble_state = Some 7"
    by (simp add: resolved_app_def get_cb_def get_command_and_module_def arg_at_def ble_lookup d(1))
       (simp add: ble_state_eq scan_cmd_def)
  have r2: "resolved_app (length ?tks) (map (Some \<circ> fst) ?tks @ [None]) ?q = Some 7"
    by (simp add: resolved_app_def get_cb_def get_command_and_module_def arg_at_def d(2))
       (simp add: quiet_state_def ble_state_eq scan_cmd_def)
  note w = module_prefix_stripped [OF ws cfg(1) cfg(2) cfg(2) d(1) d(2), of ?run 0 0]
  from w r1 obtain t where
    "shell_process_command example_cfg ?run (replicate 0 (CHR '' '') @ spaced ((''ble'', Suc 0) # ?tks))
       (replicate 11 None) ble_state = Inr t"
    "calls_since ble_state t = [Call 7 (length ?tks) (map (Some \<circ> fst) ?tks @ [None])]"
    by blast
  then have c1: "map_sum id (calls_since ble_state)
     (shell_process_command example_cfg ?run ''ble scan now'' (replicate 11 None) ble_state)
     = Inr [Call 7 2 [Some ''scan'', Some ''now'', None]]"
    by simp
  from w r2 obtain t' where
    "shell_process_command example_cfg ?run (replicate 0 (CHR '' '') @ spaced ?tks)
       (replicate 11 None) ?q = Inr t'"
    "calls_since ?q t' = [Call 7 (length ?tks) (map (Some \<circ> fst) ?tks @ [None])]"
    by blast
  then have c2: "map_sum id (calls_since ?q)
     (shell_process_command example_cfg ?run ''scan now'' (replicate 11 None) ?q)
     = Inr [Call 7 2 [Some ''scan'', Some ''now'', None]]"
    by simp
  from w d(3,4,5) have "resolved_app (Suc (length ?tks)) (Some ''ble'' # map (Some \<circ> fst) ?tks @ [None]) ble_state
      = resolved_app (length ?tks) (map (Some \<circ> fst) ?tks @ [None]) ?q"
    by simp
  then have c3: "resolved_app 3 [Some ''ble'', Some ''scan'', Some ''now'', None] ble_state
     = resolved_app 2 [Some ''scan'', Some ''now'', None] ?q"
    by (simp add: numeral_3_eq_3 numeral_2_eq_2)
  from c1 c2 c3 show ?thesis by blast
qed

end
